theory Spec2Isabelle
  imports Complex_Main "HOL-Library.Multiset"
begin

section \<open>Tensors\<close>

text \<open>
  Floating-point tensors are modelled over the reals. A two-dimensional tensor carries its
  number of columns, so that a tensor with no rows still has a shape \<open>[0, c]\<close>.
  Every exception of the Python code is a value of \<open>error\<close>.
\<close>

datatype error = RuntimeError | IndexError | ValueError | TypeError

type_synonym vec = "real list"
type_synonym mat = "real list list"

record tensor2 =
  ncols :: nat
  rows :: "vec list"

definition wf_tensor2 :: "tensor2 \<Rightarrow> bool" where
  "wf_tensor2 t = list_all (\<lambda>r. length r = ncols t) (rows t)"

definition zeros :: "nat \<Rightarrow> nat \<Rightarrow> tensor2" where
  "zeros n c = \<lparr>ncols = c, rows = replicate n (replicate c 0)\<rparr>"

text \<open>
  A kernel value \<open>k\<close>: either of shape \<open>[E, cout, cin]\<close> (\<open>K3 cout cin ks\<close>) or, with a
  group dimension, of shape \<open>[E, G, cout, cin]\<close> (\<open>K4 G cout cin kss\<close>).
\<close>

datatype ktensor = K3 nat nat "mat list" | K4 nat nat nat "mat list list"

fun k_len :: "ktensor \<Rightarrow> nat" where
  "k_len (K3 cout cin ks) = length ks"
| "k_len (K4 g cout cin kss) = length kss"

fun k_cout :: "ktensor \<Rightarrow> nat" where
  "k_cout (K3 cout cin ks) = cout"
| "k_cout (K4 g cout cin kss) = cout"

fun k_cin :: "ktensor \<Rightarrow> nat" where
  "k_cin (K3 cout cin ks) = cin"
| "k_cin (K4 g cout cin kss) = cin"

text \<open>\<open>k.div_(c)\<close>: every entry divided by \<open>c\<close>.\<close>

definition mat_div :: "real \<Rightarrow> mat \<Rightarrow> mat" where
  "mat_div c m = map (map (\<lambda>x. x / c)) m"

fun k_div :: "real \<Rightarrow> ktensor \<Rightarrow> ktensor" where
  "k_div c (K3 cout cin ks) = K3 cout cin (map (mat_div c) ks)"
| "k_div c (K4 g cout cin kss) = K4 g cout cin (map (map (mat_div c)) kss)"

definition dot :: "vec \<Rightarrow> vec \<Rightarrow> real" where
  "dot a b = sum_list (map2 (*) a b)"

definition matvec :: "mat \<Rightarrow> vec \<Rightarrow> vec" where
  "matvec m v = map (\<lambda>r. dot r v) m"

definition vadd :: "vec \<Rightarrow> vec \<Rightarrow> vec" where
  "vadd a b = map2 (+) a b"

text \<open>\<open>chunks g c xs\<close>: a row of \<open>g * c\<close> entries seen as \<open>g\<close> chunks of \<open>c\<close> entries (\<open>view\<close>).\<close>

fun chunks :: "nat \<Rightarrow> nat \<Rightarrow> 'a list \<Rightarrow> 'a list list" where
  "chunks 0 c xs = []"
| "chunks (Suc g) c xs = take c xs # chunks g c (drop c xs)"

text \<open>
  Two operands of \<open>torch.einsum\<close> that share the subscript \<open>e\<close>: the sizes agree, or one of
  them is 1 and is broadcast; anything else raises.
\<close>

definition bcast2 :: "'a list \<Rightarrow> 'b list \<Rightarrow> error + ('a \<times> 'b) list" where
  "bcast2 as bs =
     (if length as = length bs then Inr (zip as bs)
      else if length as = 1 then Inr (map (\<lambda>b. (hd as, b)) bs)
      else if length bs = 1 then Inr (map (\<lambda>a. (a, hd bs)) as)
      else Inl RuntimeError)"

text \<open>\<open>einsum('eij,egj->egi', k, x)\<close> and \<open>einsum('egij,egj->egi', k, x)\<close>.\<close>

definition einsum_eij :: "mat list \<Rightarrow> vec list list \<Rightarrow> error + vec list list" where
  "einsum_eij ks xs =
     (case bcast2 ks xs of
        Inl e \<Rightarrow> Inl e
      | Inr kxs \<Rightarrow> Inr (map (\<lambda>(k, xg). map (matvec k) xg) kxs))"

definition einsum_egij :: "mat list list \<Rightarrow> vec list list \<Rightarrow> error + vec list list" where
  "einsum_egij kss xs =
     (case bcast2 kss xs of
        Inl e \<Rightarrow> Inl e
      | Inr kxs \<Rightarrow> Inr (map (\<lambda>(kg, xg). map2 matvec kg xg) kxs))"

text \<open>
  \<open>t.reshape(N, c)\<close> of a contiguous tensor \<open>t\<close> of shape \<open>[E', g, cout]\<close> with
  \<open>c = g * cout\<close>: the element counts must agree.
\<close>

definition reshape_rows :: "nat \<Rightarrow> nat \<Rightarrow> vec list list \<Rightarrow> error + tensor2" where
  "reshape_rows N c t =
     (if length t * c \<noteq> N * c then Inl RuntimeError
      else Inr \<lparr>ncols = c, rows = (if length t = N then map concat t else replicate N [])\<rparr>)"

section \<open>Message passing (torch_geometric)\<close>

text \<open>
  \<open>index_select\<close>: rows of \<open>x\<close> at the given indices; an index outside the tensor raises.
\<close>

definition index_select :: "tensor2 \<Rightarrow> nat list \<Rightarrow> error + tensor2" where
  "index_select x idx =
     (if list_ex (\<lambda>i. length (rows x) \<le> i) idx then Inl IndexError
      else Inr \<lparr>ncols = ncols x, rows = map (\<lambda>i. rows x ! i) idx\<rparr>)"

text \<open>
  \<open>scatter(src, index, dim=0, dim_size, reduce='add')\<close>: the index is broadcast to the
  shape of \<open>src\<close> (equal lengths, or a single index repeated), and row \<open>s\<close> of the result is
  the sum of the rows of \<open>src\<close> whose index is \<open>s\<close>. An index \<open>\<ge> dim_size\<close> that addresses
  an entry raises.
\<close>

definition scatter_index :: "nat list \<Rightarrow> nat \<Rightarrow> error + nat list" where
  "scatter_index index n =
     (if length index = n then Inr index
      else if length index = 1 then Inr (replicate n (hd index))
      else Inl RuntimeError)"

definition gather_rows :: "vec list \<Rightarrow> nat list \<Rightarrow> nat \<Rightarrow> vec list" where
  "gather_rows src index s = map fst (filter (\<lambda>(m, i). i = s) (zip src index))"

definition scatter_add :: "tensor2 \<Rightarrow> nat list \<Rightarrow> nat \<Rightarrow> error + tensor2" where
  "scatter_add src index dim_size =
     (case scatter_index index (length (rows src)) of
        Inl e \<Rightarrow> Inl e
      | Inr idx \<Rightarrow>
          if 0 < ncols src \<and> list_ex (\<lambda>i. dim_size \<le> i) idx then Inl RuntimeError
          else Inr \<lparr>ncols = ncols src,
                    rows = map (\<lambda>s. foldl vadd (replicate (ncols src) 0) (gather_rows (rows src) idx s))
                               [0..<dim_size]\<rparr>)"

text \<open>
  Modelled from the spec: \<open>MessagePassing.propagate\<close> of torch_geometric with
  \<open>aggr='add'\<close> and \<open>flow='target_to_source'\<close>, which is not part of the repository
  ("for each edge compute the message from \<open>features[target]\<close>", "sum all messages with the
  same source into output row source"). An edge is the pair
  \<open>(edge_index[0, e], edge_index[1, e])\<close>. \<open>size = (n_target, n_source)\<close>: the first
  component has to be the number of rows of \<open>x\<close>, the second is the number of output rows;
  without \<open>size\<close> the output has as many rows as \<open>x\<close>.
\<close>

definition propagate ::
  "(tensor2 \<Rightarrow> error + tensor2) \<Rightarrow> (nat \<times> nat) list \<Rightarrow> (nat \<times> nat) option \<Rightarrow> tensor2
     \<Rightarrow> error + tensor2" where
  "propagate msg edge_index sz x =
     (if (case sz of None \<Rightarrow> False | Some (n_t, n_s) \<Rightarrow> n_t \<noteq> length (rows x))
      then Inl ValueError
      else case index_select x (map snd edge_index) of
        Inl e \<Rightarrow> Inl e
      | Inr x_j \<Rightarrow>
         (case msg x_j of
            Inl e \<Rightarrow> Inl e
          | Inr out \<Rightarrow>
              scatter_add out (map fst edge_index)
                (case sz of None \<Rightarrow> length (rows x) | Some (n_t, n_s) \<Rightarrow> n_s)))"

section \<open>Convolution\<close>

text \<open>\<open>Convolution.message\<close>.\<close>

definition Convolution_message :: "tensor2 \<Rightarrow> ktensor \<Rightarrow> nat \<Rightarrow> error + tensor2" where
  "Convolution_message x_j k groups =
     (let N = length (rows x_j); cout = k_cout k; cin = k_cin k in
      if N * ncols x_j \<noteq> N * groups * cin then Inl RuntimeError
      else
        let xv = map (chunks groups cin) (rows x_j) in
        if k_len k = 0 then Inr (zeros 0 (groups * cout))
        else
          (case k of
             K4 g _ _ kss \<Rightarrow>
               if g = groups then
                 (case einsum_egij kss xv of
                    Inl e \<Rightarrow> Inl e
                  | Inr t \<Rightarrow> reshape_rows N (groups * cout) t)
               else Inl RuntimeError
           | K3 _ _ ks \<Rightarrow>
               (case einsum_eij ks xv of
                  Inl e \<Rightarrow> Inl e
                | Inr t \<Rightarrow> reshape_rows N (groups * cout) t)))"

text \<open>
  \<open>Convolution.forward\<close>. The kernel is the module's collaborator: a function from the edge
  attributes \<open>edge_r\<close> (one 3-vector per row) to a kernel value, which may raise.
\<close>

definition Convolution_forward ::
  "(vec list \<Rightarrow> error + ktensor) \<Rightarrow> tensor2 \<Rightarrow> (nat \<times> nat) list \<Rightarrow> vec list
     \<Rightarrow> (nat \<times> nat) option \<Rightarrow> real \<Rightarrow> nat \<Rightarrow> error + tensor2" where
  "Convolution_forward kern features edge_index edge_r sz n_norm groups =
     (case kern edge_r of
        Inl e \<Rightarrow> Inl e
      | Inr k0 \<Rightarrow>
          let k = k_div (sqrt n_norm) k0 in
          propagate (\<lambda>x_j. Convolution_message x_j k groups) edge_index sz features)"

text \<open>
  The scalar kernel of the flow test: \<open>Rs_in = Rs_out = [0]\<close> with the radial weight fixed
  to 1, the \<open>1 \<times> 1\<close> identity for every edge.
\<close>

definition identity_scalar_kernel :: "vec list \<Rightarrow> error + ktensor" where
  "identity_scalar_kernel edge_r = Inr (K3 1 1 (map (\<lambda>r. [[1]]) edge_r))"

section \<open>WTPConv and WTPConv2\<close>

text \<open>Elementwise arithmetic of tensors with numbers, and \<open>x.norm()\<close> of a vector.\<close>

definition tensor_div :: "tensor2 \<Rightarrow> real \<Rightarrow> tensor2" where
  "tensor_div t c = \<lparr>ncols = ncols t, rows = map (map (\<lambda>x. x / c)) (rows t)\<rparr>"

definition tensor_scale :: "real \<Rightarrow> tensor2 \<Rightarrow> tensor2" where
  "tensor_scale c t = \<lparr>ncols = ncols t, rows = map (map (\<lambda>x. c * x)) (rows t)\<rparr>"

definition norm2 :: "vec \<Rightarrow> real" where
  "norm2 v = sqrt (sum_list (map (\<lambda>x. x * x) v))"

text \<open>
  Elementwise binary operations broadcast: in each dimension the sizes agree or one of
  them is 1; otherwise the operation raises.
\<close>

definition compat :: "nat \<Rightarrow> nat \<Rightarrow> bool" where
  "compat n m = (n = m \<or> n = 1 \<or> m = 1)"

definition bsize :: "nat \<Rightarrow> nat \<Rightarrow> nat" where
  "bsize n m = (if n = 1 then m else n)"

definition expand :: "nat \<Rightarrow> 'a list \<Rightarrow> 'a list" where
  "expand n xs = (if length xs = n then xs else replicate n (hd xs))"

definition tensor_binop :: "(real \<Rightarrow> real \<Rightarrow> real) \<Rightarrow> tensor2 \<Rightarrow> tensor2 \<Rightarrow> error + tensor2" where
  "tensor_binop f a b =
     (if compat (length (rows a)) (length (rows b)) \<and> compat (ncols a) (ncols b) then
        let n = bsize (length (rows a)) (length (rows b)); c = bsize (ncols a) (ncols b) in
        Inr \<lparr>ncols = c,
             rows = map2 (\<lambda>ra rb. map2 f (expand c ra) (expand c rb))
                      (expand n (rows a)) (expand n (rows b))\<rparr>
      else Inl RuntimeError)"

text \<open>
  A representation list \<open>Rs\<close>: blocks \<open>(mul, l, p)\<close>; a block takes \<open>mul * (2 * l + 1)\<close>
  columns.
\<close>

type_synonym rs = "(nat \<times> nat \<times> int) list"

fun block_dim :: "nat \<times> nat \<times> int \<Rightarrow> nat" where
  "block_dim (mul, l, p) = mul * (2 * l + 1)"

definition rs_dim :: "rs \<Rightarrow> nat" where
  "rs_dim Rs = sum_list (map block_dim Rs)"

text \<open>
  The collaborators a \<open>WTPConv\<close> holds: the spherical harmonics of its \<open>Rs_sh\<close> and
  normalization (\<open>sph\<close>), the radial model \<open>rm\<close> and the weighted tensor product \<open>tp\<close>. Each
  may raise.
\<close>

record wtp_module =
  sph :: "vec list \<Rightarrow> error + tensor2"
  rm :: "vec \<Rightarrow> error + tensor2"
  tp :: "tensor2 \<Rightarrow> tensor2 \<Rightarrow> tensor2 \<Rightarrow> error + tensor2"

text \<open>\<open>WTPConv.forward\<close>; \<open>message\<close> is \<open>self.tp(x_j, sh, w)\<close>.\<close>

definition WTPConv_forward ::
  "'a wtp_module_scheme \<Rightarrow> tensor2 \<Rightarrow> (nat \<times> nat) list \<Rightarrow> vec list \<Rightarrow> tensor2 option
     \<Rightarrow> (nat \<times> nat) option \<Rightarrow> real \<Rightarrow> error + tensor2" where
  "WTPConv_forward m features edge_index edge_r sh sz n_norm =
     (case (case sh of None \<Rightarrow> sph m edge_r | Some s \<Rightarrow> Inr s) of
        Inl e \<Rightarrow> Inl e
      | Inr sh0 \<Rightarrow>
          let sh1 = tensor_div sh0 (sqrt n_norm) in
          (case rm m (map norm2 edge_r) of
             Inl e \<Rightarrow> Inl e
           | Inr w \<Rightarrow> propagate (\<lambda>x_j. tp m x_j sh1 w) edge_index sz features))"

text \<open>
  A \<open>WTPConv2\<close> holds in addition the linear maps \<open>lin1\<close> and \<open>lin2\<close> and the simplified
  representations \<open>self.Rs_in\<close> and \<open>self.Rs_out\<close>.
\<close>

record wtp2_module = wtp_module +
  lin1 :: "tensor2 \<Rightarrow> error + tensor2"
  lin2 :: "tensor2 \<Rightarrow> error + tensor2"
  Rs_in :: rs
  Rs_out :: rs

definition has_self_interaction :: "rs \<Rightarrow> rs \<Rightarrow> vec" where
  "has_self_interaction rs_in rs_out =
     concat (map (\<lambda>(mul, l, p).
        replicate (mul * (2 * l + 1))
          (if list_ex (\<lambda>(m_in, l_in, p_in). l_in = l \<and> p_in = p) rs_in then 1 else 0)) rs_out)"

definition WTPConv2_forward ::
  "wtp2_module \<Rightarrow> tensor2 \<Rightarrow> (nat \<times> nat) list \<Rightarrow> vec list \<Rightarrow> tensor2 option
     \<Rightarrow> (nat \<times> nat) option \<Rightarrow> real \<Rightarrow> error + tensor2" where
  "WTPConv2_forward m features edge_index edge_r sh sz n_norm =
     (case (case sh of None \<Rightarrow> sph m edge_r | Some s \<Rightarrow> Inr s) of
        Inl e \<Rightarrow> Inl e
      | Inr sh0 \<Rightarrow>
          let sh1 = tensor_div sh0 (sqrt n_norm) in
          (case rm m (map norm2 edge_r) of
             Inl e \<Rightarrow> Inl e
           | Inr w \<Rightarrow>
              (case lin1 m features of
                 Inl e \<Rightarrow> Inl e
               | Inr self_interation \<Rightarrow>
                  (case propagate (\<lambda>x_j. tp m x_j sh1 w) edge_index sz features of
                     Inl e \<Rightarrow> Inl e
                   | Inr features1 \<Rightarrow>
                      (case lin2 m features1 of
                         Inl e \<Rightarrow> Inl e
                       | Inr features2 \<Rightarrow>
                          let hsi = has_self_interaction (Rs_in m) (Rs_out m);
                              coef = \<lparr>ncols = length hsi,
                                      rows = [map (\<lambda>h. 1 + (sqrt (1 / 2) - 1) * h) hsi]\<rparr>
                          in (case tensor_binop (*) coef features2 of
                                Inl e \<Rightarrow> Inl e
                              | Inr t \<Rightarrow>
                                  tensor_binop (+)
                                    (tensor_scale (sqrt (1 / 2)) self_interation) t))))))"

text \<open>The entry of \<open>has_self_interaction\<close> for one output block.\<close>

definition block_flag :: "rs \<Rightarrow> nat \<times> nat \<times> int \<Rightarrow> real" where
  "block_flag rs_in blk = (if list_ex (\<lambda>(m_in, l_in, p_in). l_in = fst (snd blk) \<and> p_in = snd (snd blk)) rs_in then 1 else 0)"

text \<open>
  A small module for evaluation: scalar input, output \<open>[(1, 0, 1), (1, 1, -1)]\<close>, a tensor
  product that multiplies its first column by the spherical harmonic.
\<close>

definition example_wtp2 :: wtp2_module where
  "example_wtp2 =
     \<lparr>sph = (\<lambda>r. Inr \<lparr>ncols = 1, rows = map (\<lambda>v. [1]) r\<rparr>),
      rm = (\<lambda>d. Inr \<lparr>ncols = 1, rows = map (\<lambda>x. [1]) d\<rparr>),
      tp = (\<lambda>x_j sh w. Inr \<lparr>ncols = 4,
              rows = map2 (\<lambda>x s. [hd x * hd s, hd s, hd s, hd s]) (rows x_j) (rows sh)\<rparr>),
      lin1 = (\<lambda>t. Inr \<lparr>ncols = 4, rows = map (\<lambda>r. [hd r, 0, 0, 0]) (rows t)\<rparr>),
      lin2 = Inr,
      Rs_in = [(1, 0, 1)],
      Rs_out = [(1, 0, 1), (1, 1, - 1)]\<rparr>"


section \<open>KMeans\<close>

text \<open>
  \<open>scatter_mean(src, index, dim=0, dim_size)\<close> of torch_scatter: the sums of
  \<open>scatter_add\<close>, each divided by the number of rows that went into it, that number
  clamped to at least 1 (\<open>count.clamp_(1)\<close>).
\<close>

definition scatter_count :: "nat list \<Rightarrow> nat \<Rightarrow> real" where
  "scatter_count index s = max 1 (real (length (filter (\<lambda>i. i = s) index)))"

definition scatter_mean :: "tensor2 \<Rightarrow> nat list \<Rightarrow> nat \<Rightarrow> error + tensor2" where
  "scatter_mean src index dim_size =
     (case scatter_add src index dim_size of
        Inl e \<Rightarrow> Inl e
      | Inr out \<Rightarrow>
          if list_ex (\<lambda>i. dim_size \<le> i) index then Inl RuntimeError
          else Inr \<lparr>ncols = ncols out,
                    rows = map2 (\<lambda>r s. map (\<lambda>x. x / scatter_count index s) r)
                             (rows out) [0..<dim_size]\<rparr>)"

text \<open>\<open>1 - t\<close> for a number and a tensor.\<close>

definition one_minus :: "tensor2 \<Rightarrow> tensor2" where
  "one_minus t = \<lparr>ncols = ncols t, rows = map (map (\<lambda>x. 1 - x)) (rows t)\<rparr>"

text \<open>
  \<open>KMeans.update_centroids\<close>. \<open>near\<close> stands for \<open>torch_geometric.nn.nearest\<close>, which
  gives for every point the index of a centroid.
\<close>

definition update_centroids ::
  "(tensor2 \<Rightarrow> tensor2 \<Rightarrow> nat list \<Rightarrow> nat list \<Rightarrow> error + nat list)
     \<Rightarrow> tensor2 \<Rightarrow> nat list \<Rightarrow> tensor2 \<Rightarrow> nat list \<Rightarrow> error + (tensor2 \<times> nat list)" where
  "update_centroids near pos batch centroids centroids_batch =
     (let N = length (rows pos); M = length (rows centroids) in
      case near pos centroids batch centroids_batch of
        Inl e \<Rightarrow> Inl e
      | Inr classification \<Rightarrow>
         (case scatter_mean pos classification M of
            Inl e \<Rightarrow> Inl e
          | Inr update \<Rightarrow>
             (case scatter_mean \<lparr>ncols = 1, rows = replicate N [1]\<rparr> classification M of
                Inl e \<Rightarrow> Inl e
              | Inr mask1 \<Rightarrow>
                 (case tensor_binop (*) update mask1 of
                    Inl e \<Rightarrow> Inl e
                  | Inr a \<Rightarrow>
                     (case tensor_binop (*) centroids (one_minus mask1) of
                        Inl e \<Rightarrow> Inl e
                      | Inr b \<Rightarrow>
                         (case tensor_binop (+) a b of
                            Inl e \<Rightarrow> Inl e
                          | Inr new_centroids \<Rightarrow> Inr (new_centroids, classification)))))))"

text \<open>
  Modelled from the spec: \<open>nearest\<close> is not part of the repository ("assign each point to
  its nearest centroid within the same batch"). Distances are compared through their
  squares; of several nearest centroids the first is taken; a point whose batch has no
  centroid is an error.
\<close>

definition sqdist :: "vec \<Rightarrow> vec \<Rightarrow> real" where
  "sqdist a b = sum_list (map2 (\<lambda>x y. (x - y) * (x - y)) a b)"

fun argmin_from :: "(nat \<Rightarrow> real) \<Rightarrow> nat \<Rightarrow> nat list \<Rightarrow> nat" where
  "argmin_from f best [] = best"
| "argmin_from f best (j # js) = argmin_from f (if f j < f best then j else best) js"

definition nearest_one :: "vec \<Rightarrow> nat \<Rightarrow> tensor2 \<Rightarrow> nat list \<Rightarrow> error + nat" where
  "nearest_one p b centroids centroids_batch =
     (case filter (\<lambda>j. centroids_batch ! j = b) [0..<length (rows centroids)] of
        [] \<Rightarrow> Inl RuntimeError
      | j # js \<Rightarrow> Inr (argmin_from (\<lambda>k. sqdist p (rows centroids ! k)) j js))"

fun nearest_rows :: "(vec \<times> nat) list \<Rightarrow> tensor2 \<Rightarrow> nat list \<Rightarrow> error + nat list" where
  "nearest_rows [] centroids centroids_batch = Inr []"
| "nearest_rows ((p, b) # ps) centroids centroids_batch =
     (case nearest_one p b centroids centroids_batch of
        Inl e \<Rightarrow> Inl e
      | Inr j \<Rightarrow>
         (case nearest_rows ps centroids centroids_batch of
            Inl e \<Rightarrow> Inl e
          | Inr js \<Rightarrow> Inr (j # js)))"

definition nearest :: "tensor2 \<Rightarrow> tensor2 \<Rightarrow> nat list \<Rightarrow> nat list \<Rightarrow> error + nat list" where
  "nearest pos centroids batch centroids_batch =
     nearest_rows (zip (rows pos) batch) centroids centroids_batch"

text \<open>
  \<open>KMeans.forward\<close>. \<open>fps\<close> stands for the farthest point sampling of torch_cluster and
  gives the indices of the start centroids. The loop runs at most \<open>max_iter\<close> times; after
  a loop that never ran, \<open>classification\<close> is unbound and the \<open>return\<close> raises.
\<close>

record kmeans =
  tol :: real
  max_iter :: nat

definition converged :: "real \<Rightarrow> tensor2 \<Rightarrow> tensor2 \<Rightarrow> error + bool" where
  "converged t centroids new_centroids =
     (case tensor_binop (-) centroids new_centroids of
        Inl e \<Rightarrow> Inl e
      | Inr d \<Rightarrow> Inr (list_all (\<lambda>r. norm2 r < t) (rows d)))"

fun kmeans_loop ::
  "(tensor2 \<Rightarrow> tensor2 \<Rightarrow> nat list \<Rightarrow> nat list \<Rightarrow> error + nat list) \<Rightarrow> real \<Rightarrow> nat
     \<Rightarrow> tensor2 \<Rightarrow> nat list \<Rightarrow> tensor2 \<Rightarrow> nat list \<Rightarrow> nat list option
     \<Rightarrow> error + (nat list \<times> tensor2 \<times> nat list)" where
  "kmeans_loop near t 0 pos batch centroids centroids_batch prev =
     (case prev of
        None \<Rightarrow> Inl RuntimeError
      | Some classification \<Rightarrow> Inr (classification, centroids, centroids_batch))"
| "kmeans_loop near t (Suc n) pos batch centroids centroids_batch prev =
     (case update_centroids near pos batch centroids centroids_batch of
        Inl e \<Rightarrow> Inl e
      | Inr (new_centroids, classification) \<Rightarrow>
         (case converged t centroids new_centroids of
            Inl e \<Rightarrow> Inl e
          | Inr True \<Rightarrow> Inr (classification, new_centroids, centroids_batch)
          | Inr False \<Rightarrow>
              kmeans_loop near t n pos batch new_centroids centroids_batch (Some classification)))"

definition select_list :: "'a list \<Rightarrow> nat list \<Rightarrow> error + 'a list" where
  "select_list xs idx =
     (if list_ex (\<lambda>i. length xs \<le> i) idx then Inl IndexError else Inr (map (\<lambda>i. xs ! i) idx))"

definition KMeans_forward ::
  "(tensor2 \<Rightarrow> tensor2 \<Rightarrow> nat list \<Rightarrow> nat list \<Rightarrow> error + nat list)
     \<Rightarrow> (tensor2 \<Rightarrow> nat list \<Rightarrow> real \<Rightarrow> nat list) \<Rightarrow> 'a kmeans_scheme
     \<Rightarrow> tensor2 \<Rightarrow> nat list \<Rightarrow> (tensor2 \<times> nat list) option \<Rightarrow> real
     \<Rightarrow> error + (nat list \<times> tensor2 \<times> nat list)" where
  "KMeans_forward near fps km pos batch start fps_ratio =
     (let (start_pos, start_batch) = (case start of None \<Rightarrow> (pos, batch) | Some sb \<Rightarrow> sb);
          fps_indices = fps start_pos start_batch fps_ratio in
      case index_select start_pos fps_indices of
        Inl e \<Rightarrow> Inl e
      | Inr centroids \<Rightarrow>
         (case select_list start_batch fps_indices of
            Inl e \<Rightarrow> Inl e
          | Inr centroids_batch \<Rightarrow>
              kmeans_loop near (tol km) (max_iter km) pos batch centroids centroids_batch None))"

text \<open>
  Three points on a line, two start centroids, the centroids after one update and after
  two updates.
\<close>

definition cx_pos :: tensor2 where
  "cx_pos = \<lparr>ncols = 3, rows = [[49999 / 10000, 0, 0], [- (50009 / 10000), 0, 0], [10, 0, 0]]\<rparr>"

definition cx_start :: tensor2 where
  "cx_start = \<lparr>ncols = 3, rows = [[0, 0, 0], [10, 0, 0]]\<rparr>"

definition cx_new :: tensor2 where
  "cx_new = \<lparr>ncols = 3, rows = [[- (1 / 2000), 0, 0], [10, 0, 0]]\<rparr>"

definition cx_new2 :: tensor2 where
  "cx_new2 = \<lparr>ncols = 3, rows = [[- (50009 / 10000), 0, 0], [149999 / 20000, 0, 0]]\<rparr>"

section \<open>Bloom\<close>

text \<open>
  \<open>t.max()\<close> of a one-dimensional tensor raises on an empty tensor; \<open>vmax\<close> is the maximum of
  a non-empty one.
\<close>

fun vmax :: "vec \<Rightarrow> real" where
  "vmax [] = 0"
| "vmax (x # xs) = fold max xs x"

text \<open>\<open>torch.cat(ts, dim=0)\<close>: raises on an empty list and on tensors of different widths.\<close>

definition tcat :: "tensor2 list \<Rightarrow> error + tensor2" where
  "tcat ts =
     (case ts of
        [] \<Rightarrow> Inl RuntimeError
      | t # ts' \<Rightarrow>
          if list_all (\<lambda>u. ncols u = ncols t) ts'
          then Inr \<lparr>ncols = ncols t, rows = concat (map rows ts)\<rparr>
          else Inl RuntimeError)"

text \<open>
  The body of the loop of \<open>Bloom.forward\<close> for node \<open>i\<close> with signal \<open>sig\<close>: the peaks it
  appends to \<open>all_peaks\<close>, the indices it appends to \<open>new_indices\<close>, and \<open>used_radius\<close>.
  \<open>find_peaks\<close> stands for \<open>SphericalTensor(sig).find_peaks(res)\<close> and gives the peaks as
  pairs of a direction and a radius. With \<open>percentage\<close>, \<open>keep_indices\<close> is the boolean mask
  itself, whose length is the number of peaks.
\<close>

definition fallback_peak :: "vec \<Rightarrow> bool \<Rightarrow> tensor2" where
  "fallback_peak sig use_L1 =
     (if use_L1 then \<lparr>ncols = length (take 3 (drop 1 sig)), rows = [take 3 (drop 1 sig)]\<rparr>
      else zeros 1 3)"

definition bloom_node ::
  "(vec \<Rightarrow> (vec \<times> real) list) \<Rightarrow> nat \<Rightarrow> vec \<Rightarrow> real \<Rightarrow> bool \<Rightarrow> real \<Rightarrow> bool
     \<Rightarrow> error + (tensor2 \<times> nat list \<times> real)" where
  "bloom_node find_peaks i sig min_radius percentage absolute_min use_L1 =
     (if sig = [] then Inl RuntimeError
      else
        let pr = (if 0 < vmax (map abs sig) then find_peaks sig else []);
            peaks = map fst pr; radii = map snd pr
        in
        if percentage then
          (if radii = [] then Inl RuntimeError
           else
             let used_radius = max (min_radius * vmax radii) absolute_min;
                 keep_indices = map (\<lambda>r. used_radius < r) radii
             in
             if length keep_indices = 0 then Inr (fallback_peak sig use_L1, [i], used_radius)
             else Inr (\<lparr>ncols = 3,
                        rows = map (\<lambda>(p, r). map (\<lambda>x. x * r) p)
                                 (filter (\<lambda>(p, r). used_radius < r) pr)\<rparr>,
                       replicate (length keep_indices) i, used_radius))
        else
          (let keep_indices = filter (\<lambda>k. min_radius < radii ! k) [0..<length radii] in
           if length keep_indices = 0 then Inr (fallback_peak sig use_L1, [i], min_radius)
           else Inr (\<lparr>ncols = 3,
                      rows = map (\<lambda>k. map (\<lambda>x. x * (radii ! k)) (peaks ! k)) keep_indices\<rparr>,
                     replicate (length keep_indices) i, min_radius)))"

fun bloom_loop ::
  "(vec \<Rightarrow> (vec \<times> real) list) \<Rightarrow> nat \<Rightarrow> vec list \<Rightarrow> real \<Rightarrow> bool \<Rightarrow> real \<Rightarrow> bool
     \<Rightarrow> error + (tensor2 list \<times> nat list)" where
  "bloom_loop find_peaks i [] min_radius percentage absolute_min use_L1 = Inr ([], [])"
| "bloom_loop find_peaks i (sig # sigs) min_radius percentage absolute_min use_L1 =
     (case bloom_node find_peaks i sig min_radius percentage absolute_min use_L1 of
        Inl e \<Rightarrow> Inl e
      | Inr (pk, idx, used_radius) \<Rightarrow>
         (case bloom_loop find_peaks (Suc i) sigs min_radius percentage absolute_min use_L1 of
            Inl e \<Rightarrow> Inl e
          | Inr (all_peaks, new_indices) \<Rightarrow> Inr (pk # all_peaks, idx @ new_indices)))"

text \<open>\<open>Bloom.forward\<close>: the peak positions and the index of the node each one comes from.\<close>

definition Bloom_forward ::
  "(vec \<Rightarrow> (vec \<times> real) list) \<Rightarrow> tensor2 \<Rightarrow> tensor2 \<Rightarrow> real \<Rightarrow> bool \<Rightarrow> real \<Rightarrow> bool
     \<Rightarrow> error + (tensor2 \<times> nat list)" where
  "Bloom_forward find_peaks signal pos min_radius percentage absolute_min use_L1 =
     (case bloom_loop find_peaks 0 (rows signal) min_radius percentage absolute_min use_L1 of
        Inl e \<Rightarrow> Inl e
      | Inr (all_peaks_list, new_indices) \<Rightarrow>
         (case tcat all_peaks_list of
            Inl e \<Rightarrow> Inl e
          | Inr all_peaks \<Rightarrow>
             (case index_select pos new_indices of
                Inl e \<Rightarrow> Inl e
              | Inr pos_sel \<Rightarrow>
                 (case tensor_binop (+) all_peaks pos_sel of
                    Inl e \<Rightarrow> Inl e
                  | Inr out \<Rightarrow> Inr (out, new_indices)))))"

section \<open>SymmetricKMeans\<close>

text \<open>
  \<open>x.norm(p, -1)\<close> of a vector for \<open>p = score_norm\<close>, and \<open>scatter_add(src, index, dim=0)\<close>
  of a one-dimensional tensor without \<open>dim_size\<close>: the result has \<open>index.max() + 1\<close>
  entries.
\<close>

definition vnorm :: "nat \<Rightarrow> vec \<Rightarrow> real" where
  "vnorm p v = root p (sum_list (map (\<lambda>x. \<bar>x\<bar> ^ p) v))"

definition scatter_add1 :: "real list \<Rightarrow> nat list \<Rightarrow> error + real list" where
  "scatter_add1 src index =
     (if length index \<noteq> length src then Inl RuntimeError
      else Inr (map (\<lambda>s. sum_list (map fst (filter (\<lambda>(x, i). i = s) (zip src index))))
                  [0..<(if index = [] then 0 else Max (set index) + 1)]))"

text \<open>\<open>KMeans.score\<close>.\<close>

definition score ::
  "nat \<Rightarrow> tensor2 \<Rightarrow> nat list \<Rightarrow> tensor2 \<Rightarrow> nat list \<Rightarrow> error + real list" where
  "score p pos batch centroids classification =
     (case index_select centroids classification of
        Inl e \<Rightarrow> Inl e
      | Inr cs \<Rightarrow>
         (case tensor_binop (-) pos cs of
            Inl e \<Rightarrow> Inl e
          | Inr d \<Rightarrow> scatter_add1 (map (vnorm p) (rows d)) batch))"

text \<open>
  \<open>t.reshape(R, -1)\<close> of a one-dimensional tensor: the length must be a multiple of \<open>R\<close>.
\<close>

definition reshape2 :: "nat \<Rightarrow> 'a list \<Rightarrow> error + 'a list list" where
  "reshape2 R xs =
     (if R = 0 \<or> length xs mod R \<noteq> 0 then Inl RuntimeError
      else Inr (chunks R (length xs div R) xs))"

text \<open>
  Modelled from the spec: \<open>torch_sparse.spspmm\<close> is not part of the repository ("sparse
  matrix multiply with shape/coalescing semantics"). Only the index of the product of two
  matrices with entries 1 is used: the pairs \<open>(i, j)\<close> with \<open>(i, k)\<close> in the first and
  \<open>(k, j)\<close> in the second matrix for some \<open>k\<close>, each once, ordered by \<open>i * n + j\<close>.
\<close>

definition spspmm_index :: "(nat \<times> nat) list \<Rightarrow> (nat \<times> nat) list \<Rightarrow> nat \<Rightarrow> (nat \<times> nat) list" where
  "spspmm_index a b n =
     sort_key (\<lambda>(i, j). i * n + j)
       (remdups (concat (map (\<lambda>(i, k). map (\<lambda>(k', j). (i, j)) (filter (\<lambda>(k', j). k' = k) b)) a)))"

fun vmin :: "vec \<Rightarrow> real" where
  "vmin [] = 0"
| "vmin (x # xs) = fold min xs x"

text \<open>
  \<open>SymmetricKMeans.cluster_edge_index_by_score\<close>. \<open>scores\<close> has one row per restart and one
  column per batch example, \<open>classification\<close> one row per restart and one column per point.
  The indices \<open>(r, n)\<close> that select from \<open>classification\<close> come from \<open>nonzero\<close> and
  \<open>arange\<close> and lie inside it.
\<close>

definition cluster_edge_index_by_score ::
  "nat \<Rightarrow> real list list \<Rightarrow> nat list list \<Rightarrow> nat \<Rightarrow> nat list \<Rightarrow> (nat \<times> nat) list" where
  "cluster_edge_index_by_score R scores classification num_centroids batch =
     (let N = length batch;
          batch_index = zip batch [0..<N];
          ncol = (case scores of [] \<Rightarrow> 0 | row # _ \<Rightarrow> length row);
          min_scores = map (\<lambda>b. vmin (map (\<lambda>row. row ! b) scores)) [0..<ncol];
          best_scores = concat (map (\<lambda>r. map (\<lambda>b. (r, b))
                           (filter (\<lambda>b. scores ! r ! b \<le> min_scores ! b) [0..<ncol]))
                           [0..<length scores]);
          best_classifications = spspmm_index best_scores batch_index N;
          best_clusters = map (\<lambda>(r, n). classification ! r ! n) best_classifications;
          cluster_index = zip best_clusters (map snd best_classifications)
      in spspmm_index (map (\<lambda>(c, n). (n, c)) cluster_index) cluster_index N)"

text \<open>
  The giant batch of \<open>SymmetricKMeans.forward\<close>: \<open>rand_iter\<close> copies of the points, copy
  \<open>r\<close> with its batch ids shifted by \<open>r * (batch.max() + 1)\<close>.
\<close>

definition big_batch :: "nat \<Rightarrow> nat list \<Rightarrow> nat list" where
  "big_batch R batch = concat (map (\<lambda>r. map (\<lambda>b. b + r * (Max (set batch) + 1)) batch) [0..<R])"

definition big_pos :: "nat \<Rightarrow> tensor2 \<Rightarrow> tensor2" where
  "big_pos R pos = \<lparr>ncols = ncols pos, rows = concat (replicate R (rows pos))\<rparr>"

text \<open>\<open>labels[node_groups[i]] = i\<close> for every group, starting from zeros.\<close>

definition assign_labels :: "nat \<Rightarrow> nat list list \<Rightarrow> nat list" where
  "assign_labels N node_groups =
     fold (\<lambda>(i, g) labels. fold (\<lambda>n l. l[n := i]) g labels)
       (zip [0..<length node_groups] node_groups) (replicate N 0)"

record symmetric_kmeans = kmeans +
  rand_iter :: nat
  score_norm :: nat

text \<open>
  Modelled from the spec: \<open>networkx.connected_components\<close> is not part of the repository
  ("take connected components of this edge graph as final cluster labels"). The graph is
  undirected, with the nodes \<open>0, \<dots>, N - 1\<close>. Every node starts as a group of its own and
  every edge merges the groups of its two ends; the groups come in the order of their least
  node, each with its nodes in ascending order.
\<close>

definition merge_edge :: "nat \<times> nat \<Rightarrow> nat list list \<Rightarrow> nat list list" where
  "merge_edge e gs =
     (let ga = concat (filter (\<lambda>g. fst e \<in> set g) gs);
          gb = concat (filter (\<lambda>g. snd e \<in> set g \<and> fst e \<notin> set g) gs);
          rest = filter (\<lambda>g. fst e \<notin> set g \<and> snd e \<notin> set g) gs
      in if ga = [] \<and> gb = [] then rest else (ga @ gb) # rest)"

definition connected_components :: "nat \<Rightarrow> (nat \<times> nat) list \<Rightarrow> nat list list" where
  "connected_components N es =
     sort_key hd (map sort (fold merge_edge es (map (\<lambda>n. [n]) [0..<N])))"

text \<open>\<open>SymmetricKMeans.forward\<close>.\<close>

definition SymmetricKMeans_forward ::
  "(tensor2 \<Rightarrow> tensor2 \<Rightarrow> nat list \<Rightarrow> nat list \<Rightarrow> error + nat list)
     \<Rightarrow> (tensor2 \<Rightarrow> nat list \<Rightarrow> real \<Rightarrow> nat list)
     \<Rightarrow> symmetric_kmeans \<Rightarrow> tensor2 \<Rightarrow> nat list \<Rightarrow> (tensor2 \<times> nat list) option \<Rightarrow> real
     \<Rightarrow> error + nat list" where
  "SymmetricKMeans_forward near fps skm pos batch start fps_ratio =
     (let N = length (rows pos); R = rand_iter skm in
      if R = 0 \<or> batch = [] then Inl RuntimeError
      else
        (case (case start of
                 None \<Rightarrow> Inr None
               | Some (start_pos, start_batch) \<Rightarrow>
                   if start_batch = [] then Inl RuntimeError
                   else Inr (Some (big_pos R start_pos, big_batch R start_batch))) of
           Inl e \<Rightarrow> Inl e
         | Inr big_start \<Rightarrow>
            (case KMeans_forward near fps skm (big_pos R pos) (big_batch R batch) big_start fps_ratio of
               Inl e \<Rightarrow> Inl e
             | Inr (classification, centroids, cb) \<Rightarrow>
                (case score (score_norm skm) (big_pos R pos) (big_batch R batch) centroids
                        classification of
                   Inl e \<Rightarrow> Inl e
                 | Inr scores1 \<Rightarrow>
                    (case reshape2 R scores1 of
                       Inl e \<Rightarrow> Inl e
                     | Inr scores \<Rightarrow>
                        (case reshape2 R classification of
                           Inl e \<Rightarrow> Inl e
                         | Inr classification2 \<Rightarrow>
                            let cluster_edge_index =
                                  cluster_edge_index_by_score R scores classification2
                                    (length (rows centroids)) batch;
                                node_groups =
                                  connected_components N
                                    (filter (\<lambda>(i, j). i \<le> j) cluster_edge_index)
                            in Inr (assign_labels N node_groups)))))))"

section \<open>Pooling\<close>




text \<open>
  A \<open>Pooling\<close> holds \<open>bloom_lmax\<close>, from which \<open>Rs_bloom\<close> is built, and its four layers:
  the bloom convolution \<open>conv(x, edge_index, edge_attr, n_norm)\<close>, the bloom module
  \<open>bloom(sph, pos, min_radius)\<close>, the cluster module
  \<open>cluster(pos, batch, start_pos, start_batch)\<close> and the gather convolution
  \<open>gather(x, edge_index, edge_attr, n_norm, size)\<close>. Each may raise.
\<close>

record pooling_module =
  bloom_lmax :: nat
  conv :: "tensor2 \<Rightarrow> (nat \<times> nat) list \<Rightarrow> tensor2 \<Rightarrow> real \<Rightarrow> error + tensor2"
  bloom :: "tensor2 \<Rightarrow> tensor2 \<Rightarrow> real \<Rightarrow> error + (tensor2 \<times> nat list)"
  cluster :: "tensor2 \<Rightarrow> nat list \<Rightarrow> (tensor2 \<times> nat list) option \<Rightarrow> error + nat list"
  gather :: "tensor2 \<Rightarrow> (nat \<times> nat) list \<Rightarrow> tensor2 \<Rightarrow> real \<Rightarrow> nat \<times> nat \<Rightarrow> error + tensor2"













section \<open>Properties of Convolution\<close>

lemma k_len_k_div [simp]: "k_len (k_div c k) = k_len k"
  by (cases k) simp_all

lemma k_cout_k_div [simp]: "k_cout (k_div c k) = k_cout k"
  by (cases k) simp_all

lemma k_cin_k_div [simp]: "k_cin (k_div c k) = k_cin k"
  by (cases k) simp_all

lemma Convolution_message_no_rows:
  "k_len k = 0 \<Longrightarrow> rows x_j = [] \<Longrightarrow>
   Convolution_message x_j k groups = Inr (zeros 0 (groups * k_cout k))"
  by (simp add: Convolution_message_def)

lemma scatter_add_no_rows: "scatter_add (zeros 0 c) [] n = Inr (zeros n c)"
  by (simp add: scatter_add_def scatter_index_def zeros_def gather_rows_def map_replicate_const)


text \<open>
  Claim C2. Messages are computed from the feature of the edge's target (row 1 of
  \<open>edge_index\<close>) and summed at the edge's source (row 0): on the star graph with features
  \<open>[-1, 1, 1, 1, 1]\<close>, edges \<open>[[0,0,0,0],[1,2,3,4]]\<close> and the identity scalar kernel of
  weight 1, the output is 4 in row 0 and 0 in rows 1 to 4.
\<close>

theorem Convolution_flow_star:
  "Convolution_forward identity_scalar_kernel
     \<lparr>ncols = 1, rows = [[-1], [1], [1], [1], [1]]\<rparr>
     [(0, 1), (0, 2), (0, 3), (0, 4)]
     [[1, 1, 1], [1, 1, 1], [1, 1, 1], [1, 1, 1]] None 1 1 =
   Inr \<lparr>ncols = 1, rows = [[4], [0], [0], [0], [0]]\<rparr>"
  by (simp add: Convolution_forward_def identity_scalar_kernel_def propagate_def index_select_def
      Convolution_message_def einsum_eij_def bcast2_def reshape_rows_def scatter_add_def
      scatter_index_def gather_rows_def matvec_def dot_def vadd_def mat_div_def zeros_def
      upt_conv_Cons numeral_nat Let_def)

text \<open>
  Claim C3. With an empty edge set (no edges, no edge attributes, a kernel value with no
  rows) and any features, \<open>Convolution.forward\<close> does not raise and returns the all-zero
  tensor with \<open>n_source\<close> rows and \<open>groups * cout = dim(Rs_out)\<close> columns. Nothing is asked
  of the width of the features.
\<close>

theorem Convolution_forward_no_edges:
  assumes "kern [] = Inr k" and "k_len k = 0"
    and "sz = None \<or> (\<exists>n_s. sz = Some (length (rows features), n_s))"
  shows "Convolution_forward kern features [] [] sz n_norm groups =
    Inr (zeros (case sz of None \<Rightarrow> length (rows features) | Some (n_t, n_s) \<Rightarrow> n_s)
           (groups * k_cout k))"
  using assms
  by (auto simp: Convolution_forward_def propagate_def index_select_def
      Convolution_message_no_rows scatter_add_no_rows)

theorem Convolution_forward_no_edges_witness:
  "Convolution_forward identity_scalar_kernel \<lparr>ncols = 1, rows = [[-1], [1]]\<rparr> [] []
     (Some (2, 3)) 1 1 =
   Inr \<lparr>ncols = 1, rows = [[0], [0], [0]]\<rparr>"
  using Convolution_forward_no_edges [of identity_scalar_kernel "K3 1 1 []" "Some (2, 3)"
      "\<lparr>ncols = 1, rows = [[-1], [1]]\<rparr>" 1 1]
  by (simp add: identity_scalar_kernel_def zeros_def numeral_nat)

lemma tensor_div_one [simp]: "tensor_div t 1 = t"
  by (simp add: tensor_div_def)








section \<open>Properties of WTPConv and WTPConv2\<close>


lemma concat_replicate_nth:
  "b < length xs \<Longrightarrow> j < fst (xs ! b) \<Longrightarrow>
   concat (map (\<lambda>(n, v). replicate n v) xs) ! (sum_list (map fst (take b xs)) + j) = snd (xs ! b)"
proof (induction xs arbitrary: b)
  case Nil
  then show ?case by simp
next
  case (Cons x xs)
  obtain n v where x: "x = (n, v)" by (cases x)
  show ?case
  proof (cases b)
    case 0
    with Cons.prems x show ?thesis by (simp add: nth_append)
  next
    case (Suc b')
    with Cons.prems x Cons.IH [of b'] show ?thesis by (simp add: nth_append add.assoc)
  qed
qed

lemma length_concat_replicate:
  "length (concat (map (\<lambda>(n, v). replicate n v) xs)) = sum_list (map fst xs)"
  by (induction xs) auto

lemma has_self_interaction_alt:
  "has_self_interaction rs_in rs_out =
   concat (map (\<lambda>(n, v). replicate n v) (map (\<lambda>blk. (block_dim blk, block_flag rs_in blk)) rs_out))"
proof -
  have "map (\<lambda>(mul, l, p). replicate (mul * (2 * l + 1))
          (if list_ex (\<lambda>(m_in, l_in, p_in). l_in = l \<and> p_in = p) rs_in then 1 else 0)) rs_out
      = map (\<lambda>blk. replicate (block_dim blk) (block_flag rs_in blk)) rs_out"
    by (rule map_cong) (auto simp: block_flag_def)
  moreover have "map (\<lambda>(n, v). replicate n v) (map (\<lambda>blk. (block_dim blk, block_flag rs_in blk)) rs_out)
      = map (\<lambda>blk. replicate (block_dim blk) (block_flag rs_in blk)) rs_out"
    by simp
  ultimately show ?thesis
    unfolding has_self_interaction_def by (rule_tac arg_cong [where f = concat]) (rule trans [OF _ sym])
qed

lemma length_has_self_interaction:
  "length (has_self_interaction rs_in rs_out) = rs_dim rs_out"
  unfolding has_self_interaction_alt length_concat_replicate rs_dim_def
  by (simp add: comp_def)

lemma has_self_interaction_nth:
  assumes "b < length rs_out" and "j < block_dim (rs_out ! b)"
  shows "has_self_interaction rs_in rs_out ! (rs_dim (take b rs_out) + j) = block_flag rs_in (rs_out ! b)"
  using concat_replicate_nth [of b "map (\<lambda>blk. (block_dim blk, block_flag rs_in blk)) rs_out" j] assms
  by (simp add: has_self_interaction_alt rs_dim_def take_map comp_def)

lemma block_offset_less:
  assumes "b < length rs_out" and "j < block_dim (rs_out ! b)"
  shows "rs_dim (take b rs_out) + j < rs_dim rs_out"
proof -
  have "rs_out = take b rs_out @ rs_out ! b # drop (Suc b) rs_out"
    using assms(1) by (simp add: id_take_nth_drop)
  then have "rs_dim rs_out = rs_dim (take b rs_out) + block_dim (rs_out ! b) + rs_dim (drop (Suc b) rs_out)"
    unfolding rs_dim_def by (metis add.assoc list.simps(9) map_append sum_list.Cons sum_list.append)
  with assms(2) show ?thesis by linarith
qed

lemma tensor_binop_same_shape:
  assumes "length (rows a) = length (rows b)" and "ncols a = ncols b"
    and "wf_tensor2 a" and "wf_tensor2 b"
  shows "tensor_binop f a b = Inr \<lparr>ncols = ncols a, rows = map2 (map2 f) (rows a) (rows b)\<rparr>"
proof -
  have "map (\<lambda>(ra, rb). map2 f (expand (ncols a) ra) (expand (ncols a) rb)) (zip (rows a) (rows b))
      = map (\<lambda>(ra, rb). map2 f ra rb) (zip (rows a) (rows b))"
  proof (rule map_cong [OF refl])
    fix x assume x: "x \<in> set (zip (rows a) (rows b))"
    obtain ra rb where xp: "x = (ra, rb)" by (cases x)
    from x xp have "ra \<in> set (rows a)" "rb \<in> set (rows b)"
      by (auto dest: set_zip_leftD set_zip_rightD)
    with assms(2-4) have "length ra = ncols a" "length rb = ncols a"
      by (auto simp: wf_tensor2_def list_all_iff)
    then show "(case x of (ra, rb) \<Rightarrow> map2 f (expand (ncols a) ra) (expand (ncols a) rb))
             = (case x of (ra, rb) \<Rightarrow> map2 f ra rb)"
      by (simp add: xp expand_def)
  qed
  then show ?thesis
    using assms(1,2) by (simp add: tensor_binop_def compat_def bsize_def expand_def Let_def)
qed

lemma tensor_binop_row_vector:
  assumes "ncols b = length v" and "wf_tensor2 b"
  shows "tensor_binop f \<lparr>ncols = length v, rows = [v]\<rparr> b =
         Inr \<lparr>ncols = ncols b, rows = map (\<lambda>rb. map2 f v rb) (rows b)\<rparr>"
proof -
  let ?n = "length (rows b)"
  have e: "expand ?n [v] = replicate ?n v"
    by (cases "?n = 1") (simp_all add: expand_def)
  have "map (\<lambda>(ra, rb). map2 f (expand (ncols b) ra) (expand (ncols b) rb)) (zip (replicate ?n v) (rows b))
      = map (\<lambda>rb. map2 f v rb) (rows b)"
  proof (rule nth_equalityI)
    show "length (map (\<lambda>(ra, rb). map2 f (expand (ncols b) ra) (expand (ncols b) rb)) (zip (replicate ?n v) (rows b)))
        = length (map (\<lambda>rb. map2 f v rb) (rows b))" by simp
  next
    fix i assume "i < length (map (\<lambda>(ra, rb). map2 f (expand (ncols b) ra) (expand (ncols b) rb)) (zip (replicate ?n v) (rows b)))"
    then have i: "i < ?n" by simp
    then have "length (rows b ! i) = ncols b"
      using assms(2) by (auto simp: wf_tensor2_def list_all_iff)
    with i assms(1) show "map (\<lambda>(ra, rb). map2 f (expand (ncols b) ra) (expand (ncols b) rb)) (zip (replicate ?n v) (rows b)) ! i
        = map (\<lambda>rb. map2 f v rb) (rows b) ! i"
      by (simp add: expand_def)
  qed
  then show ?thesis
    using assms(1) e by (simp add: tensor_binop_def compat_def bsize_def Let_def expand_def)
qed


lemma block_flag_coef:
  "1 + (sqrt (1 / 2) - 1) * block_flag rs_in blk =
   (if (\<exists>b\<in>set rs_in. fst (snd b) = fst (snd blk) \<and> snd (snd b) = snd (snd blk))
    then sqrt (1 / 2) else 1)"
proof -
  have "list_ex (\<lambda>(m_in, l_in, p_in). l_in = fst (snd blk) \<and> p_in = snd (snd blk)) rs_in
      \<longleftrightarrow> (\<exists>b\<in>set rs_in. fst (snd b) = fst (snd blk) \<and> snd (snd b) = snd (snd blk))"
    unfolding list_ex_iff by (rule bex_cong [OF refl]) (simp add: case_prod_beta)
  then show ?thesis
    by (simp add: block_flag_def)
qed

text \<open>
  Claim C4. When the collaborators of \<open>WTPConv2.forward\<close> return tensors of the output
  shape, every column of every output block \<open>(mul, l, p)\<close> is \<open>sqrt (1/2)\<close> times the
  self-interaction path plus \<open>c\<close> times the aggregated and linearly mapped message path,
  with \<open>c = sqrt (1/2)\<close> if \<open>Rs_in\<close> has a block of the same \<open>(l, p)\<close> and \<open>c = 1\<close>
  otherwise.
\<close>

theorem WTPConv2_forward_mixing:
  assumes sh: "(case sh of None \<Rightarrow> sph m edge_r | Some s \<Rightarrow> Inr s) = Inr sh0"
    and w: "rm m (map norm2 edge_r) = Inr w"
    and si: "lin1 m features = Inr si"
    and agg: "propagate (\<lambda>x_j. tp m x_j (tensor_div sh0 (sqrt n_norm)) w) edge_index sz features = Inr agg"
    and msg: "lin2 m agg = Inr msg"
    and wf: "wf_tensor2 si" "wf_tensor2 msg"
    and cols: "ncols si = rs_dim (Rs_out m)" "ncols msg = rs_dim (Rs_out m)"
    and len: "length (rows si) = length (rows msg)"
  shows "\<exists>out. WTPConv2_forward m features edge_index edge_r sh sz n_norm = Inr out \<and>
     length (rows out) = length (rows msg) \<and>
     (\<forall>b<length (Rs_out m). \<forall>i<length (rows msg). \<forall>j<block_dim (Rs_out m ! b).
        rows out ! i ! (rs_dim (take b (Rs_out m)) + j) =
          sqrt (1 / 2) * rows si ! i ! (rs_dim (take b (Rs_out m)) + j) +
          (if (\<exists>blk\<in>set (Rs_in m). fst (snd blk) = fst (snd (Rs_out m ! b)) \<and>
                  snd (snd blk) = snd (snd (Rs_out m ! b)))
           then sqrt (1 / 2) else 1) * rows msg ! i ! (rs_dim (take b (Rs_out m)) + j))"
proof -
  let ?hsi = "has_self_interaction (Rs_in m) (Rs_out m)"
  let ?cf = "map (\<lambda>h. 1 + (sqrt (1 / 2) - 1) * h) ?hsi"
  let ?t = "\<lparr>ncols = ncols msg, rows = map (\<lambda>rb. map2 (*) ?cf rb) (rows msg)\<rparr>"
  let ?s = "tensor_scale (sqrt (1 / 2)) si"
  let ?out = "\<lparr>ncols = ncols ?s, rows = map2 (map2 (+)) (rows ?s) (rows ?t)\<rparr>"
  have lcf: "length ?cf = rs_dim (Rs_out m)"
    by (simp add: length_has_self_interaction)
  have t: "tensor_binop (*) \<lparr>ncols = length ?hsi, rows = [?cf]\<rparr> msg = Inr ?t"
    using tensor_binop_row_vector [of msg ?cf "(*)"] cols(2) wf(2) lcf by simp
  have wft: "wf_tensor2 ?t"
    using wf(2) cols(2) lcf by (auto simp: wf_tensor2_def list_all_iff)
  have wfs: "wf_tensor2 ?s"
    using wf(1) by (auto simp: wf_tensor2_def list_all_iff tensor_scale_def)
  have out: "tensor_binop (+) ?s ?t = Inr ?out"
    using tensor_binop_same_shape [of ?s ?t "(+)"] wfs wft len cols
    by (simp add: tensor_scale_def)
  have fwd: "WTPConv2_forward m features edge_index edge_r sh sz n_norm = Inr ?out"
    using sh w si agg msg t out by (simp add: WTPConv2_forward_def Let_def)
  have entries: "rows ?out ! i ! (rs_dim (take b (Rs_out m)) + j) =
          sqrt (1 / 2) * rows si ! i ! (rs_dim (take b (Rs_out m)) + j) +
          (if (\<exists>blk\<in>set (Rs_in m). fst (snd blk) = fst (snd (Rs_out m ! b)) \<and>
                  snd (snd blk) = snd (snd (Rs_out m ! b)))
           then sqrt (1 / 2) else 1) * rows msg ! i ! (rs_dim (take b (Rs_out m)) + j)"
    if b: "b < length (Rs_out m)" and i: "i < length (rows msg)" and j: "j < block_dim (Rs_out m ! b)"
    for b i j
  proof -
    let ?k = "rs_dim (take b (Rs_out m)) + j"
    have k: "?k < rs_dim (Rs_out m)"
      using b j by (rule block_offset_less)
    have lsi: "length (rows si ! i) = rs_dim (Rs_out m)"
      using wf(1) cols(1) i len by (auto simp: wf_tensor2_def list_all_iff)
    have lmsg: "length (rows msg ! i) = rs_dim (Rs_out m)"
      using wf(2) cols(2) i by (auto simp: wf_tensor2_def list_all_iff)
    have cf: "?cf ! ?k = (if (\<exists>blk\<in>set (Rs_in m). fst (snd blk) = fst (snd (Rs_out m ! b)) \<and>
                  snd (snd blk) = snd (snd (Rs_out m ! b))) then sqrt (1 / 2) else 1)"
      using k has_self_interaction_nth [OF b j, of "Rs_in m"]
      by (simp add: length_has_self_interaction block_flag_coef del: block_dim.simps)
    show ?thesis
      using i len k lsi lmsg lcf cf by (simp add: tensor_scale_def)
  qed
  show ?thesis
    using fwd entries len by (intro exI [of _ ?out]) (simp add: tensor_scale_def)
qed



lemma tensor_div_neq:
  assumes c: "0 < c" "c \<noteq> 1" and nz: "list_ex (list_ex (\<lambda>a. a \<noteq> 0)) (rows s)"
  shows "tensor_div s (sqrt c) \<noteq> s"
proof
  assume eq: "tensor_div s (sqrt c) = s"
  then have r: "map (map (\<lambda>x. x / sqrt c)) (rows s) = rows s"
    by (simp add: tensor_div_def) (metis tensor2.select_convs(2))
  from nz obtain v a where v: "v \<in> set (rows s)" and a: "a \<in> set v" "a \<noteq> 0"
    by (auto simp: list_ex_iff)
  from r v have "map (\<lambda>x. x / sqrt c) v = v"
    by (metis map_eq_conv map_idI id_apply list.map_id)
  with a have "a / sqrt c = a"
    by (metis map_eq_conv map_idI id_apply list.map_id)
  moreover have "0 < sqrt c"
    using c(1) by simp
  ultimately have "a = a * sqrt c"
    by (simp add: field_simps)
  with a(2) have "sqrt c = 1"
    by simp
  with c show False by simp
qed

text \<open>
  Claim C10. \<open>WTPConv.forward\<close> and \<open>WTPConv2.forward\<close> divide the spherical harmonics by
  \<open>sqrt n_norm\<close> also when the caller supplies them. With a supplied \<open>sh = s\<close> and
  \<open>n_norm = c > 0\<close> the tensor product of every message is applied to \<open>s / sqrt c\<close>: the
  output of \<open>WTPConv.forward\<close> is the aggregation of \<open>tp(x_j, s / sqrt c, w)\<close>, the output of
  \<open>WTPConv2.forward\<close> is the mix of \<open>lin1\<close> of the features with \<open>lin2\<close> of that
  aggregation, both are the outputs for \<open>sh = s / sqrt c\<close> and \<open>n_norm = 1\<close>, and for
  \<open>c \<noteq> 1\<close> the tensor \<open>s / sqrt c\<close> differs from \<open>s\<close> as soon as \<open>s\<close> has a nonzero entry.
\<close>

theorem WTPConv_sh_always_scaled:
  assumes "0 < c"
  shows "WTPConv_forward m features edge_index edge_r (Some s) sz c =
           (case rm m (map norm2 edge_r) of
              Inl e \<Rightarrow> Inl e
            | Inr w \<Rightarrow> propagate (\<lambda>x_j. tp m x_j (tensor_div s (sqrt c)) w) edge_index sz features)
       \<and> WTPConv2_forward m2 features edge_index edge_r (Some s) sz c =
           (case rm m2 (map norm2 edge_r) of
              Inl e \<Rightarrow> Inl e
            | Inr w \<Rightarrow>
               (case lin1 m2 features of
                  Inl e \<Rightarrow> Inl e
                | Inr self_interation \<Rightarrow>
                   (case propagate (\<lambda>x_j. tp m2 x_j (tensor_div s (sqrt c)) w) edge_index sz
                           features of
                      Inl e \<Rightarrow> Inl e
                    | Inr features1 \<Rightarrow>
                       (case lin2 m2 features1 of
                          Inl e \<Rightarrow> Inl e
                        | Inr features2 \<Rightarrow>
                           (case tensor_binop (*)
                                   \<lparr>ncols = length (has_self_interaction (Rs_in m2) (Rs_out m2)),
                                    rows = [map (\<lambda>h. 1 + (sqrt (1 / 2) - 1) * h)
                                             (has_self_interaction (Rs_in m2) (Rs_out m2))]\<rparr>
                                   features2 of
                              Inl e \<Rightarrow> Inl e
                            | Inr t \<Rightarrow>
                               tensor_binop (+) (tensor_scale (sqrt (1 / 2)) self_interation) t)))))
       \<and> WTPConv_forward m features edge_index edge_r (Some s) sz c =
           WTPConv_forward m features edge_index edge_r (Some (tensor_div s (sqrt c))) sz 1
       \<and> WTPConv2_forward m2 features edge_index edge_r (Some s) sz c =
           WTPConv2_forward m2 features edge_index edge_r (Some (tensor_div s (sqrt c))) sz 1
       \<and> (c \<noteq> 1 \<and> list_ex (list_ex (\<lambda>a. a \<noteq> 0)) (rows s) \<longrightarrow>
            tensor_div s (sqrt c) \<noteq> s)"
proof (intro conjI impI)
  assume "c \<noteq> 1 \<and> list_ex (list_ex (\<lambda>a. a \<noteq> 0)) (rows s)"
  then show "tensor_div s (sqrt c) \<noteq> s"
    using tensor_div_neq [OF assms] by blast
qed (simp_all add: WTPConv_forward_def WTPConv2_forward_def Let_def split: sum.splits)

lemma example_propagate:
  "propagate (\<lambda>x_j. tp example_wtp2 x_j \<lparr>ncols = 1, rows = [[1]]\<rparr> w) [(0, 0)] None
     \<lparr>ncols = 1, rows = [[2]]\<rparr> = Inr \<lparr>ncols = 4, rows = [[2, 1, 1, 1]]\<rparr>"
  by (simp add: example_wtp2_def propagate_def index_select_def scatter_add_def scatter_index_def
      gather_rows_def vadd_def numeral_nat)

lemma example_propagate_unscaled:
  "propagate (\<lambda>x_j. tp example_wtp2 x_j \<lparr>ncols = 1, rows = [[2]]\<rparr> w) [(0, 0)] None
     \<lparr>ncols = 1, rows = [[2]]\<rparr> = Inr \<lparr>ncols = 4, rows = [[4, 2, 2, 2]]\<rparr>"
  by (simp add: example_wtp2_def propagate_def index_select_def scatter_add_def scatter_index_def
      gather_rows_def vadd_def numeral_nat)

theorem WTPConv_sh_always_scaled_witness:
  "(0::real) < 4 \<and> (4::real) \<noteq> 1 \<and>
   list_ex (list_ex (\<lambda>a. a \<noteq> 0)) (rows \<lparr>ncols = 1, rows = [[2]]\<rparr>) \<and>
   WTPConv_forward example_wtp2 \<lparr>ncols = 1, rows = [[2]]\<rparr> [(0, 0)] [[1, 0, 0]]
     (Some \<lparr>ncols = 1, rows = [[2]]\<rparr>) None 4 = Inr \<lparr>ncols = 4, rows = [[2, 1, 1, 1]]\<rparr> \<and>
   WTPConv_forward example_wtp2 \<lparr>ncols = 1, rows = [[2]]\<rparr> [(0, 0)] [[1, 0, 0]]
     (Some \<lparr>ncols = 1, rows = [[2]]\<rparr>) None 1 = Inr \<lparr>ncols = 4, rows = [[4, 2, 2, 2]]\<rparr> \<and>
   WTPConv2_forward example_wtp2 \<lparr>ncols = 1, rows = [[2]]\<rparr> [(0, 0)] [[1, 0, 0]]
     (Some \<lparr>ncols = 1, rows = [[2]]\<rparr>) None 4 =
   WTPConv2_forward example_wtp2 \<lparr>ncols = 1, rows = [[2]]\<rparr> [(0, 0)] [[1, 0, 0]]
     (Some \<lparr>ncols = 1, rows = [[1]]\<rparr>) None 1 \<and>
   tensor_div \<lparr>ncols = 1, rows = [[2]]\<rparr> (sqrt 4) \<noteq> \<lparr>ncols = 1, rows = [[2]]\<rparr>"
proof -
  let ?f = "\<lparr>ncols = 1, rows = [[2]]\<rparr>"
  have d: "tensor_div ?f (sqrt 4) = \<lparr>ncols = 1, rows = [[1]]\<rparr>"
    by (simp add: tensor_div_def)
  have r: "rm example_wtp2 [x] = Inr \<lparr>ncols = 1, rows = [[1]]\<rparr>" for x
    by (simp add: example_wtp2_def)
  have u: "WTPConv_forward example_wtp2 ?f [(0, 0)] [[1, 0, 0]] (Some ?f) None 1 =
      Inr \<lparr>ncols = 4, rows = [[4, 2, 2, 2]]\<rparr>"
    using example_propagate_unscaled by (simp add: WTPConv_forward_def r)
  note t = WTPConv_sh_always_scaled [of 4 example_wtp2 ?f "[(0, 0)]" "[[1, 0, 0]]" ?f None
      example_wtp2]
  have h: "(0::real) < 4" by simp
  have v: "WTPConv_forward example_wtp2 ?f [(0, 0)] [[1, 0, 0]] (Some ?f) None 4 =
      Inr \<lparr>ncols = 4, rows = [[2, 1, 1, 1]]\<rparr>"
    using t [OF h, THEN conjunct1] example_propagate unfolding d by (simp add: r)
  have w: "WTPConv2_forward example_wtp2 ?f [(0, 0)] [[1, 0, 0]] (Some ?f) None 4 =
      WTPConv2_forward example_wtp2 ?f [(0, 0)] [[1, 0, 0]] (Some \<lparr>ncols = 1, rows = [[1]]\<rparr>) None 1"
    using t [OF h, THEN conjunct2, THEN conjunct2, THEN conjunct2, THEN conjunct1]
    unfolding d .
  have n: "tensor_div ?f (sqrt 4) \<noteq> ?f"
    using t [OF h, THEN conjunct2, THEN conjunct2, THEN conjunct2, THEN conjunct2] by simp
  show ?thesis
    using v u w n by simp
qed

theorem WTPConv2_forward_mixing_witness:
  "\<exists>out. WTPConv2_forward example_wtp2 \<lparr>ncols = 1, rows = [[2]]\<rparr> [(0, 0)] [[1, 0, 0]]
       (Some \<lparr>ncols = 1, rows = [[1]]\<rparr>) None 1 = Inr out \<and>
     length (rows out) = 1 \<and>
     rows out ! 0 ! 0 = sqrt (1 / 2) * 2 + sqrt (1 / 2) * 2 \<and>
     rows out ! 0 ! 1 = sqrt (1 / 2) * 0 + 1 * 1"
proof -
  let ?f = "\<lparr>ncols = 1, rows = [[2]]\<rparr>"
  let ?si = "\<lparr>ncols = 4, rows = [[2, 0, 0, 0]]\<rparr>"
  let ?msg = "\<lparr>ncols = 4, rows = [[2, 1, 1, 1]]\<rparr>"
  have "\<exists>out. WTPConv2_forward example_wtp2 ?f [(0, 0)] [[1, 0, 0]]
       (Some \<lparr>ncols = 1, rows = [[1]]\<rparr>) None 1 = Inr out \<and>
     length (rows out) = length (rows ?msg) \<and>
     (\<forall>b<length (Rs_out example_wtp2). \<forall>i<length (rows ?msg). \<forall>j<block_dim (Rs_out example_wtp2 ! b).
        rows out ! i ! (rs_dim (take b (Rs_out example_wtp2)) + j) =
          sqrt (1 / 2) * rows ?si ! i ! (rs_dim (take b (Rs_out example_wtp2)) + j) +
          (if (\<exists>blk\<in>set (Rs_in example_wtp2). fst (snd blk) = fst (snd (Rs_out example_wtp2 ! b)) \<and>
                  snd (snd blk) = snd (snd (Rs_out example_wtp2 ! b)))
           then sqrt (1 / 2) else 1) * rows ?msg ! i ! (rs_dim (take b (Rs_out example_wtp2)) + j))"
  proof (rule WTPConv2_forward_mixing [where ?sh0.0 = "\<lparr>ncols = 1, rows = [[1]]\<rparr>"
        and w = "\<lparr>ncols = 1, rows = [[1]]\<rparr>" and agg = ?msg])
    show "propagate (\<lambda>x_j. tp example_wtp2 x_j (tensor_div \<lparr>ncols = 1, rows = [[1]]\<rparr> (sqrt 1))
        \<lparr>ncols = 1, rows = [[1]]\<rparr>) [(0, 0)] None ?f = Inr ?msg"
      using example_propagate by simp
  qed (simp_all add: example_wtp2_def norm2_def wf_tensor2_def rs_dim_def)
  then obtain out where
    fwd: "WTPConv2_forward example_wtp2 ?f [(0, 0)] [[1, 0, 0]]
       (Some \<lparr>ncols = 1, rows = [[1]]\<rparr>) None 1 = Inr out"
    and len: "length (rows out) = length (rows ?msg)"
    and ent: "\<And>b i j. b < length (Rs_out example_wtp2) \<Longrightarrow> i < length (rows ?msg) \<Longrightarrow>
        j < block_dim (Rs_out example_wtp2 ! b) \<Longrightarrow>
        rows out ! i ! (rs_dim (take b (Rs_out example_wtp2)) + j) =
          sqrt (1 / 2) * rows ?si ! i ! (rs_dim (take b (Rs_out example_wtp2)) + j) +
          (if (\<exists>blk\<in>set (Rs_in example_wtp2). fst (snd blk) = fst (snd (Rs_out example_wtp2 ! b)) \<and>
                  snd (snd blk) = snd (snd (Rs_out example_wtp2 ! b)))
           then sqrt (1 / 2) else 1) * rows ?msg ! i ! (rs_dim (take b (Rs_out example_wtp2)) + j)"
    by blast
  have e0: "rows out ! 0 ! 0 = sqrt (1 / 2) * 2 + sqrt (1 / 2) * 2"
    using ent [of 0 0 0] by (simp add: example_wtp2_def rs_dim_def)
  have e1: "rows out ! 0 ! 1 = sqrt (1 / 2) * 0 + 1 * 1"
    using ent [of 1 0 0] by (simp add: example_wtp2_def rs_dim_def)
  show ?thesis
    using fwd len e0 e1 by (intro exI [of _ out]) simp
qed


section \<open>Properties of KMeans\<close>


lemma foldl_vadd_length:
  "list_all (\<lambda>r. length r = d) rs \<Longrightarrow> length acc = d \<Longrightarrow> length (foldl vadd acc rs) = d"
  by (induction rs arbitrary: acc) (simp_all add: vadd_def)

lemma foldl_vadd_nth:
  "list_all (\<lambda>r. length r = d) rs \<Longrightarrow> length acc = d \<Longrightarrow> k < d \<Longrightarrow>
   foldl vadd acc rs ! k = acc ! k + sum_list (map (\<lambda>r. r ! k) rs)"
proof (induction rs arbitrary: acc)
  case Nil
  then show ?case by simp
next
  case (Cons r rs)
  have "length (vadd acc r) = d"
    using Cons.prems by (simp add: vadd_def)
  then have "foldl vadd (vadd acc r) rs ! k = vadd acc r ! k + sum_list (map (\<lambda>r. r ! k) rs)"
    using Cons.IH Cons.prems by simp
  moreover have "vadd acc r ! k = acc ! k + r ! k"
    using Cons.prems by (simp add: vadd_def)
  ultimately show ?case by simp
qed

lemma gather_rows_conv:
  assumes "length src = length idx"
  shows "gather_rows src idx s = map (\<lambda>i. src ! i) (filter (\<lambda>i. idx ! i = s) [0..<length idx])"
proof -
  have "zip src idx = map (\<lambda>i. (src ! i, idx ! i)) [0..<length idx]"
    using assms by (intro nth_equalityI) simp_all
  then show ?thesis
    by (simp add: gather_rows_def filter_map comp_def)
qed

lemma gather_rows_sum:
  assumes "length src = length idx"
  shows "sum_list (map (\<lambda>r. r ! k) (gather_rows src idx s)) =
         (\<Sum>i | i < length idx \<and> idx ! i = s. src ! i ! k)"
proof -
  let ?is = "filter (\<lambda>i. idx ! i = s) [0..<length idx]"
  have "sum_list (map (\<lambda>r. r ! k) (gather_rows src idx s)) = sum_list (map (\<lambda>i. src ! i ! k) ?is)"
    by (simp add: gather_rows_conv [OF assms] comp_def)
  also have "\<dots> = sum (\<lambda>i. src ! i ! k) (set ?is)"
    by (rule sum_list_distinct_conv_sum_set) simp
  also have "set ?is = {i. i < length idx \<and> idx ! i = s}"
    by auto
  finally show ?thesis .
qed

lemma gather_rows_all:
  "list_all (\<lambda>r. length r = d) src \<Longrightarrow> list_all (\<lambda>r. length r = d) (gather_rows src idx s)"
  by (auto simp: gather_rows_def list_all_iff dest: set_zip_leftD)

lemma count_card:
  "real (length (filter (\<lambda>i. i = s) idx)) = real (card {i. i < length idx \<and> idx ! i = s})"
  by (simp add: length_filter_conv_card)

lemma count_zero_iff: "length (filter (\<lambda>i. i = s) idx) = 0 \<longleftrightarrow> s \<notin> set idx"
  by (auto simp: filter_empty_conv)

lemma map2_map_same: "map2 f (map g xs) xs = map (\<lambda>x. f (g x) x) xs"
  by (induction xs) simp_all

lemma scatter_mean_valid:
  assumes "length idx = length (rows src)" and "list_all (\<lambda>i. i < n) idx"
  shows "scatter_mean src idx n =
     Inr \<lparr>ncols = ncols src,
          rows = map (\<lambda>s. map (\<lambda>x. x / scatter_count idx s)
                   (foldl vadd (replicate (ncols src) 0) (gather_rows (rows src) idx s))) [0..<n]\<rparr>"
proof -
  have "\<not> list_ex (\<lambda>i. n \<le> i) idx"
    using assms(2) by (auto simp: list_ex_iff list_all_iff)
  then show ?thesis
    using assms(1) by (simp add: scatter_mean_def scatter_add_def scatter_index_def map2_map_same)
qed


lemma tensor_binop_cols:
  assumes len: "length (rows a) = length (rows b)"
    and wfa: "wf_tensor2 a" and wfb: "wf_tensor2 b"
    and c: "ncols b = ncols a \<or> ncols b = 1"
  shows "\<exists>t. tensor_binop f a b = Inr t \<and> ncols t = ncols a \<and>
     length (rows t) = length (rows a) \<and> wf_tensor2 t \<and>
     (\<forall>j<length (rows a). \<forall>k<ncols a.
        rows t ! j ! k = f (rows a ! j ! k) (rows b ! j ! (if ncols b = ncols a then k else 0)))"
proof -
  let ?d = "ncols a"
  let ?t = "\<lparr>ncols = ?d,
             rows = map2 (\<lambda>ra rb. map2 f (expand ?d ra) (expand ?d rb)) (rows a) (rows b)\<rparr>"
  have bs: "bsize ?d (ncols b) = ?d"
    using c by (auto simp: bsize_def)
  have eq: "tensor_binop f a b = Inr ?t"
    using len c bs by (auto simp: tensor_binop_def compat_def Let_def expand_def bsize_def)
  have la: "length (rows a ! j) = ?d" if "j < length (rows a)" for j
    using wfa that by (auto simp: wf_tensor2_def list_all_iff)
  have lb: "length (rows b ! j) = ncols b" if "j < length (rows a)" for j
    using wfb that len by (auto simp: wf_tensor2_def list_all_iff)
  have lexp: "length (expand ?d r) = ?d" for r :: vec
    by (simp add: expand_def)
  have row: "rows ?t ! j = map2 f (rows a ! j) (expand ?d (rows b ! j))" if "j < length (rows a)" for j
    using that len la [OF that] by (simp add: expand_def)
  have wft: "wf_tensor2 ?t"
    unfolding wf_tensor2_def list_all_iff
  proof
    fix r assume "r \<in> set (rows ?t)"
    then obtain j where j: "j < length (rows ?t)" and r: "r = rows ?t ! j"
      by (auto simp: in_set_conv_nth)
    from j len have j': "j < length (rows a)" by simp
    show "length r = ncols ?t"
      using row [OF j'] r la [OF j'] lexp by simp
  qed
  have ent: "rows ?t ! j ! k = f (rows a ! j ! k) (rows b ! j ! (if ncols b = ?d then k else 0))"
    if j: "j < length (rows a)" and k: "k < ?d" for j k
  proof -
    have "expand ?d (rows b ! j) ! k = rows b ! j ! (if ncols b = ?d then k else 0)"
    proof (cases "ncols b = ?d")
      case True
      then show ?thesis using lb [OF j] by (simp add: expand_def)
    next
      case False
      with c have one: "ncols b = 1" by simp
      then have "rows b ! j \<noteq> []" using lb [OF j] by auto
      then have "hd (rows b ! j) = rows b ! j ! 0" by (simp add: hd_conv_nth)
      with False one k lb [OF j] show ?thesis by (simp add: expand_def)
    qed
    then show ?thesis
      using row [OF j] la [OF j] lexp k by simp
  qed
  show ?thesis
    using eq wft ent len by (intro exI [of _ ?t]) simp
qed


lemma scatter_mean_entries:
  assumes len: "length idx = length (rows src)" and rng: "list_all (\<lambda>i. i < n) idx"
    and wf: "wf_tensor2 src"
  shows "\<exists>t. scatter_mean src idx n = Inr t \<and> ncols t = ncols src \<and> length (rows t) = n \<and>
     wf_tensor2 t \<and>
     (\<forall>s<n. \<forall>k<ncols src.
        rows t ! s ! k = (\<Sum>i | i < length idx \<and> idx ! i = s. rows src ! i ! k) / scatter_count idx s)"
proof -
  let ?d = "ncols src"
  let ?row = "\<lambda>s. foldl vadd (replicate ?d 0) (gather_rows (rows src) idx s)"
  let ?t = "\<lparr>ncols = ?d, rows = map (\<lambda>s. map (\<lambda>x. x / scatter_count idx s) (?row s)) [0..<n]\<rparr>"
  have eq: "scatter_mean src idx n = Inr ?t"
    by (rule scatter_mean_valid [OF len rng])
  have all: "list_all (\<lambda>r. length r = ?d) (gather_rows (rows src) idx s)" for s
    using wf by (intro gather_rows_all) (simp add: wf_tensor2_def)
  have lrow: "length (?row s) = ?d" for s
    by (rule foldl_vadd_length [OF all]) simp
  have wft: "wf_tensor2 ?t"
    using lrow by (simp add: wf_tensor2_def list_all_iff)
  have ent: "rows ?t ! s ! k = (\<Sum>i | i < length idx \<and> idx ! i = s. rows src ! i ! k) / scatter_count idx s"
    if s: "s < n" and k: "k < ?d" for s k
  proof -
    have "?row s ! k = replicate ?d 0 ! k + sum_list (map (\<lambda>r. r ! k) (gather_rows (rows src) idx s))"
      by (rule foldl_vadd_nth [OF all _ k]) simp
    also have "\<dots> = (\<Sum>i | i < length idx \<and> idx ! i = s. rows src ! i ! k)"
      using k gather_rows_sum [of "rows src" idx k s] len by simp
    finally show ?thesis
      using s k lrow by simp
  qed
  show ?thesis
    using eq wft ent by (intro exI [of _ ?t]) simp
qed

lemma scatter_count_card:
  "scatter_count idx s = max 1 (real (card {i. i < length idx \<and> idx ! i = s}))"
  by (simp add: scatter_count_def length_filter_conv_card)

lemma card_assigned_zero_iff:
  "card {i. i < length idx \<and> idx ! i = s} = 0 \<longleftrightarrow> s \<notin> set idx"
  by (auto simp: in_set_conv_nth)

lemma real_of_nat_ge_one: "n \<noteq> 0 \<Longrightarrow> 1 \<le> real n"
  by simp

lemma mean_arith: "1 \<le> (c::real) \<Longrightarrow> S / c * (c / c) + x * (1 - c / c) = S / c"
  by simp

lemma update_centroids_entries:
  assumes near: "near pos centroids batch centroids_batch = Inr cls"
    and len: "length cls = length (rows pos)"
    and rng: "list_all (\<lambda>c. c < length (rows centroids)) cls"
    and wfp: "wf_tensor2 pos" and wfc: "wf_tensor2 centroids"
    and cols: "ncols centroids = ncols pos"
  shows "\<exists>new. update_centroids near pos batch centroids centroids_batch = Inr (new, cls) \<and>
     length (rows new) = length (rows centroids) \<and> ncols new = ncols pos \<and> wf_tensor2 new \<and>
     (\<forall>j<length (rows centroids).
        1 \<le> scatter_count cls j \<and>
        (j \<notin> set cls \<longrightarrow> rows new ! j = rows centroids ! j) \<and>
        (j \<in> set cls \<longrightarrow> length (rows new ! j) = ncols pos \<and>
           (\<forall>k<ncols pos. rows new ! j ! k =
              (\<Sum>i | i < length cls \<and> cls ! i = j. rows pos ! i ! k) /
                real (card {i. i < length cls \<and> cls ! i = j}))))"
proof -
  let ?N = "length (rows pos)" and ?M = "length (rows centroids)" and ?d = "ncols pos"
  let ?ones = "\<lparr>ncols = 1, rows = replicate ?N [1]\<rparr>"
  let ?card = "\<lambda>j. card {i. i < length cls \<and> cls ! i = j}"
  obtain update where u: "scatter_mean pos cls ?M = Inr update"
    and ucols: "ncols update = ?d" and ulen: "length (rows update) = ?M" and wfu: "wf_tensor2 update"
    and uent: "\<And>s k. s < ?M \<Longrightarrow> k < ?d \<Longrightarrow>
        rows update ! s ! k = (\<Sum>i | i < length cls \<and> cls ! i = s. rows pos ! i ! k) / scatter_count cls s"
    using scatter_mean_entries [OF len rng wfp] by blast
  have wfo: "wf_tensor2 ?ones"
    by (simp add: wf_tensor2_def list_all_iff)
  obtain mask1 where m: "scatter_mean ?ones cls ?M = Inr mask1"
    and mcols: "ncols mask1 = 1" and mlen: "length (rows mask1) = ?M" and wfm: "wf_tensor2 mask1"
    and ment0: "\<And>s k. s < ?M \<Longrightarrow> k < ncols ?ones \<Longrightarrow>
        rows mask1 ! s ! k = (\<Sum>i | i < length cls \<and> cls ! i = s. rows ?ones ! i ! k) / scatter_count cls s"
    using scatter_mean_entries [of cls ?ones ?M] len rng wfo by auto
  have ment: "rows mask1 ! s ! 0 = real (?card s) / scatter_count cls s" if "s < ?M" for s
  proof -
    have "(\<Sum>i | i < length cls \<and> cls ! i = s. rows ?ones ! i ! 0) = (\<Sum>i | i < length cls \<and> cls ! i = s. 1)"
      using len by (intro sum.cong) auto
    then show ?thesis
      using ment0 [OF that, of 0] by simp
  qed
  have wf1: "wf_tensor2 (one_minus mask1)"
    using wfm by (auto simp: wf_tensor2_def one_minus_def list_all_iff)
  have om: "rows (one_minus mask1) ! s ! 0 = 1 - rows mask1 ! s ! 0" if "s < ?M" for s
  proof -
    have "length (rows mask1 ! s) = 1"
      using wfm mcols mlen that by (auto simp: wf_tensor2_def list_all_iff)
    then show ?thesis using that mlen by (simp add: one_minus_def)
  qed
  obtain a where a: "tensor_binop (*) update mask1 = Inr a"
    and acols: "ncols a = ?d" and alen: "length (rows a) = ?M" and wfa: "wf_tensor2 a"
    and aent: "\<And>j k. j < ?M \<Longrightarrow> k < ?d \<Longrightarrow>
        rows a ! j ! k = rows update ! j ! k * rows mask1 ! j ! (if ncols mask1 = ncols update then k else 0)"
    using tensor_binop_cols [of update mask1 "(*)"] ulen mlen wfu wfm mcols ucols by auto
  obtain b where b: "tensor_binop (*) centroids (one_minus mask1) = Inr b"
    and bcols: "ncols b = ?d" and blen: "length (rows b) = ?M" and wfb: "wf_tensor2 b"
    and bent: "\<And>j k. j < ?M \<Longrightarrow> k < ?d \<Longrightarrow>
        rows b ! j ! k = rows centroids ! j ! k *
          rows (one_minus mask1) ! j ! (if ncols (one_minus mask1) = ncols centroids then k else 0)"
    using tensor_binop_cols [of centroids "one_minus mask1" "(*)"] mlen wfc wf1 mcols cols
    by (auto simp: one_minus_def)
  obtain new where n: "tensor_binop (+) a b = Inr new"
    and ncols: "ncols new = ?d" and nlen: "length (rows new) = ?M" and wfn: "wf_tensor2 new"
    and nent: "\<And>j k. j < ?M \<Longrightarrow> k < ?d \<Longrightarrow>
        rows new ! j ! k = rows a ! j ! k + rows b ! j ! (if ncols b = ncols a then k else 0)"
    using tensor_binop_cols [of a b "(+)"] alen blen wfa wfb acols bcols by auto
  have fwd: "update_centroids near pos batch centroids centroids_batch = Inr (new, cls)"
    using near u m a b n by (simp add: update_centroids_def)
  have idx0: "(if ncols mask1 = ncols update then k else 0) = 0" if "k < ?d" for k
    using that mcols ucols by auto
  have idx1: "(if ncols (one_minus mask1) = ncols centroids then k else 0) = 0" if "k < ?d" for k
    using that mcols cols by (auto simp: one_minus_def)
  have ent: "rows new ! j ! k =
      (\<Sum>i | i < length cls \<and> cls ! i = j. rows pos ! i ! k) / scatter_count cls j *
        (real (?card j) / scatter_count cls j) +
      rows centroids ! j ! k * (1 - real (?card j) / scatter_count cls j)"
    if j: "j < ?M" and k: "k < ?d" for j k
    using nent [OF j k] aent [OF j k] bent [OF j k] uent [OF j k] ment [OF j] om [OF j]
      idx0 [OF k] idx1 [OF k] acols bcols by simp
  have lnew: "length (rows new ! j) = ?d" if "j < ?M" for j
    using wfn ncols nlen that by (auto simp: wf_tensor2_def list_all_iff)
  have lcen: "length (rows centroids ! j) = ?d" if "j < ?M" for j
    using wfc cols that by (auto simp: wf_tensor2_def list_all_iff)
  have main: "1 \<le> scatter_count cls j \<and>
        (j \<notin> set cls \<longrightarrow> rows new ! j = rows centroids ! j) \<and>
        (j \<in> set cls \<longrightarrow> length (rows new ! j) = ?d \<and>
           (\<forall>k<?d. rows new ! j ! k =
              (\<Sum>i | i < length cls \<and> cls ! i = j. rows pos ! i ! k) / real (?card j)))"
    if j: "j < ?M" for j
  proof (intro conjI impI allI)
    show "1 \<le> scatter_count cls j" by (simp add: scatter_count_def)
  next
    assume "j \<notin> set cls"
    then have z: "?card j = 0" using card_assigned_zero_iff [of cls j] by blast
    show "rows new ! j = rows centroids ! j"
    proof (rule nth_equalityI)
      show "length (rows new ! j) = length (rows centroids ! j)"
        using lnew [OF j] lcen [OF j] by simp
    next
      fix k assume "k < length (rows new ! j)"
      then have k: "k < ?d" using lnew [OF j] by simp
      show "rows new ! j ! k = rows centroids ! j ! k"
        using ent [OF j k] z by simp
    qed
  next
    assume "j \<in> set cls"
    show "length (rows new ! j) = ?d" by (rule lnew [OF j])
  next
    fix k assume jin: "j \<in> set cls" and k: "k < ?d"
    have "?card j \<noteq> 0" using jin card_assigned_zero_iff [of cls j] by blast
    then have pos: "1 \<le> real (?card j)" by (rule real_of_nat_ge_one)
    then have sc: "scatter_count cls j = real (?card j)"
      by (simp add: scatter_count_card)
    show "rows new ! j ! k = (\<Sum>i | i < length cls \<and> cls ! i = j. rows pos ! i ! k) / real (?card j)"
      using ent [OF j k] unfolding sc by (simp only: mean_arith [OF pos])
  qed
  show ?thesis
    using fwd nlen ncols wfn main by (intro exI [of _ new]) simp
qed

text \<open>
  Claim C6. In an update step whose classification has one centroid index per point, a
  centroid with no assigned point keeps exactly its previous value, and a centroid with
  assigned points becomes, in every coordinate, the sum of its points divided by their
  number. Every division of the step is by \<open>scatter_count\<close>, which is at least 1, so no
  division by zero (the source of a NaN) occurs.
\<close>

theorem update_centroids_mean:
  assumes "near pos centroids batch centroids_batch = Inr cls"
    and "length cls = length (rows pos)"
    and "list_all (\<lambda>c. c < length (rows centroids)) cls"
    and "wf_tensor2 pos" and "wf_tensor2 centroids"
    and "ncols centroids = ncols pos"
  shows "\<exists>new. update_centroids near pos batch centroids centroids_batch = Inr (new, cls) \<and>
     length (rows new) = length (rows centroids) \<and>
     (\<forall>j<length (rows centroids).
        1 \<le> scatter_count cls j \<and>
        (j \<notin> set cls \<longrightarrow> rows new ! j = rows centroids ! j) \<and>
        (j \<in> set cls \<longrightarrow> length (rows new ! j) = ncols pos \<and>
           (\<forall>k<ncols pos. rows new ! j ! k =
              (\<Sum>i | i < length cls \<and> cls ! i = j. rows pos ! i ! k) /
                real (card {i. i < length cls \<and> cls ! i = j}))))"
  using update_centroids_entries [of near pos centroids batch centroids_batch cls] assms by blast


lemma example_nearest:
  "nearest \<lparr>ncols = 1, rows = [[1], [9], [4]]\<rparr> \<lparr>ncols = 1, rows = [[0], [10], [20]]\<rparr>
     [0, 0, 0] [0, 0, 0] = Inr [0, 1, 0]"
  by (simp add: nearest_def nearest_one_def sqdist_def upt_conv_Cons)

theorem update_centroids_mean_witness:
  "\<exists>new. update_centroids nearest \<lparr>ncols = 1, rows = [[1], [9], [4]]\<rparr> [0, 0, 0]
       \<lparr>ncols = 1, rows = [[0], [10], [20]]\<rparr> [0, 0, 0] = Inr (new, [0, 1, 0]) \<and>
     length (rows new) = 3 \<and> rows new ! 2 = [20] \<and> rows new ! 0 ! 0 = 5 / 2"
proof -
  let ?pos = "\<lparr>ncols = 1, rows = [[1], [9], [4]]\<rparr>"
  let ?cen = "\<lparr>ncols = 1, rows = [[0], [10], [20]]\<rparr>"
  let ?cls = "[0, 1, 0] :: nat list"
  have "\<exists>new. update_centroids nearest ?pos [0, 0, 0] ?cen [0, 0, 0] = Inr (new, ?cls) \<and>
     length (rows new) = length (rows ?cen) \<and>
     (\<forall>j<length (rows ?cen).
        1 \<le> scatter_count ?cls j \<and>
        (j \<notin> set ?cls \<longrightarrow> rows new ! j = rows ?cen ! j) \<and>
        (j \<in> set ?cls \<longrightarrow> length (rows new ! j) = ncols ?pos \<and>
           (\<forall>k<ncols ?pos. rows new ! j ! k =
              (\<Sum>i | i < length ?cls \<and> ?cls ! i = j. rows ?pos ! i ! k) /
                real (card {i. i < length ?cls \<and> ?cls ! i = j}))))"
  proof (rule update_centroids_mean [where near = nearest and batch = "[0, 0, 0]"
          and centroids_batch = "[0, 0, 0]"])
    show "nearest ?pos ?cen [0, 0, 0] [0, 0, 0] = Inr ?cls"
      by (rule example_nearest)
  qed (simp_all add: wf_tensor2_def)
  then obtain new where
    fwd: "update_centroids nearest ?pos [0, 0, 0] ?cen [0, 0, 0] = Inr (new, ?cls)"
    and len: "length (rows new) = length (rows ?cen)"
    and keep: "\<And>j. j < length (rows ?cen) \<Longrightarrow> j \<notin> set ?cls \<Longrightarrow> rows new ! j = rows ?cen ! j"
    and mean: "\<And>j k. j < length (rows ?cen) \<Longrightarrow> j \<in> set ?cls \<Longrightarrow> k < ncols ?pos \<Longrightarrow>
        rows new ! j ! k = (\<Sum>i | i < length ?cls \<and> ?cls ! i = j. rows ?pos ! i ! k) /
                real (card {i. i < length ?cls \<and> ?cls ! i = j})"
    by blast
  have s: "{i. i < length ?cls \<and> ?cls ! i = 0} = {0, 2}"
    by (auto simp: nth_Cons' less_Suc_eq numeral_3_eq_3 numeral_2_eq_2)
  have "rows new ! 2 = [20]"
    using keep [of 2] by simp
  moreover have "rows new ! 0 ! 0 = 5 / 2"
    using mean [of 0 0] unfolding s by simp
  ultimately show ?thesis
    using fwd len by (intro exI [of _ new]) simp
qed



section \<open>Convergence of KMeans\<close>


lemma norm2_less_iff:
  assumes "0 < t"
  shows "norm2 v < t \<longleftrightarrow> sum_list (map (\<lambda>x. x * x) v) < t * t"
proof -
  have "norm2 v < t \<longleftrightarrow> sqrt (sum_list (map (\<lambda>x. x * x) v)) < sqrt (t * t)"
    using assms by (simp add: norm2_def)
  then show ?thesis by (simp only: real_sqrt_less_iff)
qed

lemma kmeans_loop_numeral:
  "kmeans_loop near t (numeral k) pos batch centroids centroids_batch prev =
     (case update_centroids near pos batch centroids centroids_batch of
        Inl e \<Rightarrow> Inl e
      | Inr (new_centroids, classification) \<Rightarrow>
         (case converged t centroids new_centroids of
            Inl e \<Rightarrow> Inl e
          | Inr True \<Rightarrow> Inr (classification, new_centroids, centroids_batch)
          | Inr False \<Rightarrow>
              kmeans_loop near t (pred_numeral k) pos batch new_centroids centroids_batch
                (Some classification)))"
  by (simp only: numeral_eq_Suc kmeans_loop.simps)

lemma cx_nearest1: "nearest cx_pos cx_start [0, 0, 0] [0, 0] = Inr [0, 0, 1]"
  by (simp add: nearest_def nearest_one_def sqdist_def cx_pos_def cx_start_def upt_conv_Cons)

lemma cx_nearest2: "nearest cx_pos cx_new [0, 0, 0] [0, 0] = Inr [1, 0, 1]"
  by (simp add: nearest_def nearest_one_def sqdist_def cx_pos_def cx_new_def upt_conv_Cons)

lemma cx_mean1:
  "scatter_mean cx_pos [0, 0, 1] 2 = Inr cx_new"
  by (simp add: scatter_mean_def scatter_add_def scatter_index_def scatter_count_def
      gather_rows_def vadd_def cx_pos_def cx_new_def upt_conv_Cons eval_nat_numeral)

lemma cx_mask1:
  "scatter_mean \<lparr>ncols = 1, rows = replicate 3 [1]\<rparr> [0, 0, 1] 2 = Inr \<lparr>ncols = 1, rows = [[1], [1]]\<rparr>"
  by (simp add: scatter_mean_def scatter_add_def scatter_index_def scatter_count_def
      gather_rows_def vadd_def upt_conv_Cons eval_nat_numeral)


lemma cx_update1:
  "update_centroids nearest cx_pos [0, 0, 0] cx_start [0, 0] = Inr (cx_new, [0, 0, 1])"
proof -
  have r: "length (rows cx_pos) = 3" "length (rows cx_start) = 2"
    by (simp_all add: cx_pos_def cx_start_def)
  have a: "tensor_binop (*) cx_new \<lparr>ncols = 1, rows = [[1], [1]]\<rparr> = Inr cx_new"
    by (simp add: tensor_binop_def compat_def bsize_def expand_def cx_new_def eval_nat_numeral)
  have b: "tensor_binop (*) cx_start (one_minus \<lparr>ncols = 1, rows = [[1], [1]]\<rparr>) =
      Inr \<lparr>ncols = 3, rows = [[0, 0, 0], [0, 0, 0]]\<rparr>"
    by (simp add: tensor_binop_def compat_def bsize_def expand_def one_minus_def cx_start_def
        eval_nat_numeral)
  have c: "tensor_binop (+) cx_new \<lparr>ncols = 3, rows = [[0, 0, 0], [0, 0, 0]]\<rparr> = Inr cx_new"
    by (simp add: tensor_binop_def compat_def bsize_def expand_def cx_new_def)
  show ?thesis
    unfolding update_centroids_def Let_def r
    by (simp only: cx_nearest1 cx_mean1 cx_mask1 a b c sum.case)
qed

lemma cx_converged: "converged (1 / 1000) cx_start cx_new = Inr True"
proof -
  have d: "tensor_binop (-) cx_start cx_new = Inr \<lparr>ncols = 3, rows = [[1 / 2000, 0, 0], [0, 0, 0]]\<rparr>"
    by (simp add: tensor_binop_def compat_def bsize_def expand_def cx_start_def cx_new_def)
  have "norm2 [1 / 2000, 0, 0] < 1 / 1000" "norm2 [0, 0, 0] < 1 / 1000"
    by (subst norm2_less_iff; simp)+
  then show ?thesis
    unfolding converged_def d by simp
qed

lemma cx_mean2: "scatter_mean cx_pos [1, 0, 1] 2 = Inr cx_new2"
  by (simp add: scatter_mean_def scatter_add_def scatter_index_def scatter_count_def
      gather_rows_def vadd_def cx_pos_def cx_new2_def upt_conv_Cons eval_nat_numeral)

lemma cx_mask2:
  "scatter_mean \<lparr>ncols = 1, rows = replicate 3 [1]\<rparr> [1, 0, 1] 2 = Inr \<lparr>ncols = 1, rows = [[1], [1]]\<rparr>"
  by (simp add: scatter_mean_def scatter_add_def scatter_index_def scatter_count_def
      gather_rows_def vadd_def upt_conv_Cons eval_nat_numeral)

lemma cx_update2:
  "update_centroids nearest cx_pos [0, 0, 0] cx_new [0, 0] = Inr (cx_new2, [1, 0, 1])"
proof -
  have r: "length (rows cx_pos) = 3" "length (rows cx_new) = 2"
    by (simp_all add: cx_pos_def cx_new_def)
  have a: "tensor_binop (*) cx_new2 \<lparr>ncols = 1, rows = [[1], [1]]\<rparr> = Inr cx_new2"
    by (simp add: tensor_binop_def compat_def bsize_def expand_def cx_new2_def eval_nat_numeral)
  have b: "tensor_binop (*) cx_new (one_minus \<lparr>ncols = 1, rows = [[1], [1]]\<rparr>) =
      Inr \<lparr>ncols = 3, rows = [[0, 0, 0], [0, 0, 0]]\<rparr>"
    by (simp add: tensor_binop_def compat_def bsize_def expand_def one_minus_def cx_new_def
        eval_nat_numeral)
  have c: "tensor_binop (+) cx_new2 \<lparr>ncols = 3, rows = [[0, 0, 0], [0, 0, 0]]\<rparr> = Inr cx_new2"
    by (simp add: tensor_binop_def compat_def bsize_def expand_def cx_new2_def)
  show ?thesis
    unfolding update_centroids_def Let_def r
    by (simp only: cx_nearest2 cx_mean2 cx_mask2 a b c sum.case)
qed

lemma cx_forward:
  "KMeans_forward nearest (\<lambda>sp sb r. [0, 1]) \<lparr>tol = 1 / 1000, max_iter = 300\<rparr> cx_pos [0, 0, 0]
     (Some (cx_start, [0, 0])) (1 / 2) = Inr ([0, 0, 1], cx_new, [0, 0])"
proof -
  have "index_select cx_start [0, 1] = Inr cx_start"
    by (simp add: index_select_def cx_start_def)
  moreover have "select_list [0, 0 :: nat] [0, 1] = Inr [0, 0]"
    by (simp add: select_list_def)
  ultimately show ?thesis
    by (simp add: KMeans_forward_def kmeans_loop_numeral [of nearest _ _ cx_pos] cx_update1
        cx_converged)
qed

text \<open>
  Claim C7, as stated, fails. With the default \<open>tol = 0.001\<close>: three points on a line and
  start centroids at 0 and 10. The first update moves the first centroid by 0.0005, so
  \<open>KMeans.forward\<close> returns; one further update with the returned centroids assigns the
  first point to the other centroid.
\<close>

theorem KMeans_converged_assignment_changes:
  "KMeans_forward nearest (\<lambda>sp sb r. [0, 1]) \<lparr>tol = 1 / 1000, max_iter = 300\<rparr> cx_pos [0, 0, 0]
     (Some (cx_start, [0, 0])) (1 / 2) = Inr ([0, 0, 1], cx_new, [0, 0]) \<and>
   update_centroids nearest cx_pos [0, 0, 0] cx_start [0, 0] = Inr (cx_new, [0, 0, 1]) \<and>
   converged (1 / 1000) cx_start cx_new = Inr True \<and>
   update_centroids nearest cx_pos [0, 0, 0] cx_new [0, 0] = Inr (cx_new2, [1, 0, 1]) \<and>
   [1, 0, 1] \<noteq> [0, 0, 1 :: nat]"
  using cx_forward cx_update1 cx_converged cx_update2 by simp



lemma cs_step:
  fixes S A B x y :: real
  assumes S: "S\<^sup>2 \<le> A * B" and A: "0 \<le> A" and B: "0 \<le> B"
  shows "(S + x * y)\<^sup>2 \<le> (A + x * x) * (B + y * y)"
proof -
  have "(2 * S * x * y)\<^sup>2 = 4 * S\<^sup>2 * (x * y)\<^sup>2"
    by (simp add: power2_eq_square)
  also have "\<dots> \<le> 4 * (A * B) * (x * y)\<^sup>2"
    using S by (intro mult_right_mono mult_left_mono) simp_all
  also have "\<dots> \<le> (A * (y * y) + B * (x * x))\<^sup>2"
  proof -
    have "(A * (y * y) + B * (x * x))\<^sup>2 - 4 * (A * B) * (x * y)\<^sup>2 = (A * (y * y) - B * (x * x))\<^sup>2"
      by (simp add: power2_eq_square algebra_simps)
    moreover have "0 \<le> (A * (y * y) - B * (x * x))\<^sup>2" by simp
    ultimately show ?thesis by linarith
  qed
  finally have "(2 * S * x * y)\<^sup>2 \<le> (A * (y * y) + B * (x * x))\<^sup>2" .
  moreover have "0 \<le> A * (y * y) + B * (x * x)"
    using A B by simp
  ultimately have "2 * S * x * y \<le> A * (y * y) + B * (x * x)"
    by (rule power2_le_imp_le)
  moreover have "(S + x * y)\<^sup>2 = S\<^sup>2 + 2 * S * x * y + (x * x) * (y * y)"
    by (simp add: power2_eq_square algebra_simps)
  moreover have "(A + x * x) * (B + y * y) = A * B + A * (y * y) + B * (x * x) + (x * x) * (y * y)"
    by (simp add: algebra_simps)
  ultimately show ?thesis using S by linarith
qed

lemma sum_squares_nonneg: "0 \<le> sum_list (map (\<lambda>x. x * x) (a :: real list))"
  by (induction a) simp_all

lemma cauchy_schwarz_list:
  "length a = length b \<Longrightarrow>
   (sum_list (map2 (*) a b))\<^sup>2 \<le> sum_list (map (\<lambda>x. x * x) a) * sum_list (map (\<lambda>x. x * x) (b :: real list))"
proof (induction a b rule: list_induct2)
  case Nil
  then show ?case by simp
next
  case (Cons x xs y ys)
  have "(sum_list (map2 (*) xs ys) + x * y)\<^sup>2 \<le>
        (sum_list (map (\<lambda>x. x * x) xs) + x * x) * (sum_list (map (\<lambda>x. x * x) ys) + y * y)"
    by (rule cs_step [OF Cons.IH sum_squares_nonneg sum_squares_nonneg])
  then show ?case by (simp add: add.commute)
qed

lemma minkowski_list:
  assumes "length a = length (b :: real list)"
  shows "sqrt (sum_list (map (\<lambda>x. x * x) (map2 (+) a b))) \<le>
         sqrt (sum_list (map (\<lambda>x. x * x) a)) + sqrt (sum_list (map (\<lambda>x. x * x) b))"
proof -
  let ?A = "sum_list (map (\<lambda>x. x * x) a)" and ?B = "sum_list (map (\<lambda>x. x * x) b)"
  let ?S = "sum_list (map2 (*) a b)"
  have expand: "sum_list (map (\<lambda>x. x * x) (map2 (+) a b)) = ?A + 2 * ?S + ?B"
    using assms by (induction a b rule: list_induct2) (simp_all add: algebra_simps)
  have A: "0 \<le> ?A" and B: "0 \<le> ?B" by (rule sum_squares_nonneg)+
  have "?S\<^sup>2 \<le> (sqrt ?A * sqrt ?B)\<^sup>2"
    using cauchy_schwarz_list [OF assms] A B by (simp add: power_mult_distrib)
  moreover have "0 \<le> sqrt ?A * sqrt ?B" using A B by simp
  ultimately have "?S \<le> sqrt ?A * sqrt ?B" by (rule power2_le_imp_le)
  then have "?A + 2 * ?S + ?B \<le> (sqrt ?A + sqrt ?B)\<^sup>2"
    using A B by (simp add: power2_sum)
  moreover have "0 \<le> sqrt ?A + sqrt ?B" using A B by simp
  ultimately show ?thesis
    unfolding expand by (intro real_le_lsqrt) simp_all
qed

lemma sqdist_triangle:
  assumes "length p = length c" and "length c = length c'"
  shows "sqrt (sqdist p c') \<le> sqrt (sqdist p c) + sqrt (sqdist c c')"
proof -
  have 1: "sqdist p c = sum_list (map (\<lambda>x. x * x) (map2 (-) p c))" for p c :: vec
  proof -
    have h: "map (\<lambda>x. x * x) (map2 (-) p c) = map2 (\<lambda>x y. (x - y) * (x - y)) p c"
      by (rule nth_equalityI) simp_all
    show ?thesis unfolding sqdist_def by (simp only: h)
  qed
  have "map2 (+) (map2 (-) p c) (map2 (-) c c') = map2 (-) p c'"
    using assms by (induction p c c' rule: list_induct3) simp_all
  moreover have "length (map2 (-) p c) = length (map2 (-) c c')"
    using assms by simp
  ultimately show ?thesis
    unfolding 1 using minkowski_list [of "map2 (-) p c" "map2 (-) c c'"] by simp
qed

lemma sqdist_commute: "sqdist a b = sqdist b a"
proof -
  have "map2 (\<lambda>x y. (x - y) * (x - y)) a b = map2 (\<lambda>x y. (x - y) * (x - y)) b (a :: vec)"
  proof (induction a arbitrary: b)
    case Nil
    then show ?case by simp
  next
    case (Cons x xs)
    then show ?case by (cases b) (simp_all add: algebra_simps)
  qed
  then show ?thesis by (simp add: sqdist_def)
qed

lemma argmin_from_in: "argmin_from f j js \<in> set (j # js)"
  by (induction js arbitrary: j) (auto split: if_splits)

lemma argmin_from_unique:
  "m \<in> set (j # js) \<Longrightarrow> list_all (\<lambda>k. k = m \<or> f m < f k) (j # js) \<Longrightarrow> argmin_from f j js = m"
proof (induction js arbitrary: j)
  case Nil
  then show ?case by simp
next
  case (Cons j' js)
  let ?b = "if f j' < f j then j' else j"
  have all: "list_all (\<lambda>k. k = m \<or> f m < f k) (?b # js)"
    using Cons.prems(2) by simp
  have "m \<in> set (?b # js)"
  proof (cases "m \<in> set js")
    case True
    then show ?thesis by simp
  next
    case False
    with Cons.prems(1) have "m = j \<or> m = j'" by auto
    then show ?thesis
      using Cons.prems(2) by auto
  qed
  then have "argmin_from f ?b js = m"
    using all by (rule Cons.IH)
  then show ?case by simp
qed


lemma nearest_rows_Inr:
  "nearest_rows ps c cb = Inr js \<longleftrightarrow>
   list_all2 (\<lambda>pb j. nearest_one (fst pb) (snd pb) c cb = Inr j) ps js"
proof (induction ps arbitrary: js)
  case Nil
  then show ?case by auto
next
  case (Cons pb ps)
  obtain p b where pb: "pb = (p, b)" by (cases pb)
  show ?case
  proof (cases js)
    case Nil
    then show ?thesis by (simp add: pb split: sum.splits)
  next
    case (Cons j js')
    then show ?thesis
      using Cons.IH [of js'] by (auto simp: pb split: sum.splits)
  qed
qed

lemma nearest_one_Inr:
  assumes "nearest_one p b c cb = Inr j"
  shows "j < length (rows c) \<and> cb ! j = b"
proof -
  let ?cand = "filter (\<lambda>j. cb ! j = b) [0..<length (rows c)]"
  from assms obtain j0 js where c: "?cand = j0 # js" and j: "j = argmin_from (\<lambda>k. sqdist p (rows c ! k)) j0 js"
    by (auto simp: nearest_one_def split: list.splits)
  have "j \<in> set ?cand"
    unfolding c j by (rule argmin_from_in)
  then show ?thesis by simp
qed

lemma nearest_one_stable:
  assumes n: "nearest_one p b c cb = Inr j"
    and len: "length (rows c') = length (rows c)"
    and better: "\<And>k. k < length (rows c) \<Longrightarrow> cb ! k = b \<Longrightarrow> k \<noteq> j \<Longrightarrow>
        sqdist p (rows c' ! j) < sqdist p (rows c' ! k)"
  shows "nearest_one p b c' cb = Inr j"
proof -
  let ?cand = "filter (\<lambda>j. cb ! j = b) [0..<length (rows c)]"
  from n obtain j0 js where c: "?cand = j0 # js"
    by (auto simp: nearest_one_def split: list.splits)
  have jin: "j \<in> set (j0 # js)"
    using nearest_one_Inr [OF n] unfolding c [symmetric] by simp
  have "list_all (\<lambda>k. k = j \<or> sqdist p (rows c' ! j) < sqdist p (rows c' ! k)) ?cand"
    using better by (auto simp: list_all_iff)
  then have "argmin_from (\<lambda>k. sqdist p (rows c' ! k)) j0 js = j"
    unfolding c using jin by (intro argmin_from_unique)
  then show ?thesis
    using c len by (simp add: nearest_one_def)
qed

lemma norm2_diff:
  assumes "length r = length a" and "length a = length b"
    and "\<And>k. k < length a \<Longrightarrow> r ! k = a ! k - b ! k"
  shows "norm2 r = sqrt (sqdist a b)"
proof -
  have "map (\<lambda>x. x * x) r = map2 (\<lambda>x y. (x - y) * (x - y)) a b"
    using assms by (intro nth_equalityI) simp_all
  then show ?thesis
    unfolding norm2_def sqdist_def by (simp only:)
qed


text \<open>
  Claim C7, amended. When the update step that met the tolerance leaves every point a
  margin of \<open>2 * tol\<close> (the distance to its assigned centroid plus \<open>2 * tol\<close> is at most the
  distance to every other centroid of its batch), one further update step returns the same
  assignment.
\<close>

theorem KMeans_assignment_stable_with_margin:
  assumes upd: "update_centroids nearest pos batch centroids centroids_batch = Inr (new_centroids, cls)"
    and conv: "converged t centroids new_centroids = Inr True"
    and wfp: "wf_tensor2 pos" and wfc: "wf_tensor2 centroids"
    and cols: "ncols centroids = ncols pos"
    and lb: "length batch = length (rows pos)"
    and margin: "\<forall>i<length (rows pos). \<forall>k<length (rows centroids).
        k \<noteq> cls ! i \<longrightarrow> centroids_batch ! k = batch ! i \<longrightarrow>
        sqrt (sqdist (rows pos ! i) (rows centroids ! (cls ! i))) + 2 * t
          \<le> sqrt (sqdist (rows pos ! i) (rows centroids ! k))"
  shows "\<exists>c. update_centroids nearest pos batch new_centroids centroids_batch = Inr (c, cls)"
proof -
  let ?N = "length (rows pos)" and ?M = "length (rows centroids)" and ?d = "ncols pos"
  let ?one = "\<lambda>c pb j. nearest_one (fst pb) (snd pb) c centroids_batch = Inr j"
  have near: "nearest pos centroids batch centroids_batch = Inr cls"
    using upd by (auto simp: update_centroids_def Let_def split: sum.splits)
  then have la2: "list_all2 (?one centroids) (zip (rows pos) batch) cls"
    by (simp add: nearest_def nearest_rows_Inr)
  then have len: "length cls = ?N"
    using lb by (auto dest: list_all2_lengthD)
  have one: "nearest_one (rows pos ! i) (batch ! i) centroids centroids_batch = Inr (cls ! i)"
    if "i < ?N" for i
    using list_all2_nthD [OF la2, of i] that lb by simp
  have own: "cls ! i < ?M \<and> centroids_batch ! (cls ! i) = batch ! i" if "i < ?N" for i
    using nearest_one_Inr [OF one [OF that]] .
  have rng: "list_all (\<lambda>c. c < ?M) cls"
    using own len by (auto simp: list_all_iff in_set_conv_nth)
  obtain new where "update_centroids nearest pos batch centroids centroids_batch = Inr (new, cls)"
    and "length (rows new) = ?M" and "ncols new = ?d" and "wf_tensor2 new"
    using update_centroids_entries [of nearest pos centroids batch centroids_batch cls]
      near len rng wfp wfc cols by blast
  with upd have nlen: "length (rows new_centroids) = ?M" and ncols: "ncols new_centroids = ?d"
    and wfn: "wf_tensor2 new_centroids"
    by simp_all
  obtain dd where dd: "tensor_binop (-) centroids new_centroids = Inr dd"
    and dcols: "ncols dd = ncols centroids" and dlen: "length (rows dd) = ?M" and wfd: "wf_tensor2 dd"
    and dent: "\<And>j k. j < ?M \<Longrightarrow> k < ncols centroids \<Longrightarrow>
        rows dd ! j ! k = rows centroids ! j ! k -
          rows new_centroids ! j ! (if ncols new_centroids = ncols centroids then k else 0)"
    using tensor_binop_cols [of centroids new_centroids "(-)"] nlen wfc wfn ncols cols by auto
  have small: "list_all (\<lambda>r. norm2 r < t) (rows dd)"
    using conv unfolding converged_def dd by simp
  have lrow: "length (rows centroids ! j) = ?d" "length (rows new_centroids ! j) = ?d"
    "length (rows dd ! j) = ?d" if "j < ?M" for j
    using that wfc wfn wfd cols ncols dcols nlen dlen by (auto simp: wf_tensor2_def list_all_iff)
  have lpos: "length (rows pos ! i) = ?d" if "i < ?N" for i
    using that wfp by (auto simp: wf_tensor2_def list_all_iff)
  have disp: "sqrt (sqdist (rows centroids ! j) (rows new_centroids ! j)) < t" if j: "j < ?M" for j
  proof -
    have "norm2 (rows dd ! j) = sqrt (sqdist (rows centroids ! j) (rows new_centroids ! j))"
      using lrow [OF j] dent [OF j] ncols cols by (intro norm2_diff) simp_all
    moreover have "norm2 (rows dd ! j) < t"
      using small j dlen by (auto simp: list_all_iff)
    ultimately show ?thesis by simp
  qed
  have better: "sqdist (rows pos ! i) (rows new_centroids ! (cls ! i))
        < sqdist (rows pos ! i) (rows new_centroids ! k)"
    if i: "i < ?N" and k: "k < ?M" and kb: "centroids_batch ! k = batch ! i" and ne: "k \<noteq> cls ! i"
    for i k
  proof -
    let ?p = "rows pos ! i" and ?j = "cls ! i"
    have j: "?j < ?M" using own [OF i] by simp
    have m: "sqrt (sqdist ?p (rows centroids ! ?j)) + 2 * t \<le> sqrt (sqdist ?p (rows centroids ! k))"
      using margin i k ne kb by blast
    have "sqrt (sqdist ?p (rows new_centroids ! ?j)) \<le>
        sqrt (sqdist ?p (rows centroids ! ?j)) + sqrt (sqdist (rows centroids ! ?j) (rows new_centroids ! ?j))"
      using lpos [OF i] lrow [OF j] by (intro sqdist_triangle) simp_all
    moreover have "sqrt (sqdist ?p (rows centroids ! k)) \<le>
        sqrt (sqdist ?p (rows new_centroids ! k)) + sqrt (sqdist (rows new_centroids ! k) (rows centroids ! k))"
      using lpos [OF i] lrow [OF k] by (intro sqdist_triangle) simp_all
    moreover have "sqrt (sqdist (rows new_centroids ! k) (rows centroids ! k)) < t"
      using disp [OF k] by (simp only: sqdist_commute [of "rows new_centroids ! k"])
    ultimately have "sqrt (sqdist ?p (rows new_centroids ! ?j)) < sqrt (sqdist ?p (rows new_centroids ! k))"
      using m disp [OF j] by linarith
    then show ?thesis by (simp only: real_sqrt_less_iff)
  qed
  have "list_all2 (?one new_centroids) (zip (rows pos) batch) cls"
  proof (rule list_all2_all_nthI)
    show "length (zip (rows pos) batch) = length cls"
      using len lb by simp
  next
    fix i assume "i < length (zip (rows pos) batch)"
    then have i: "i < ?N" by simp
    have "nearest_one (rows pos ! i) (batch ! i) new_centroids centroids_batch = Inr (cls ! i)"
      using one [OF i] nlen
    proof (rule nearest_one_stable)
      fix k assume "k < ?M" "centroids_batch ! k = batch ! i" "k \<noteq> cls ! i"
      then show "sqdist (rows pos ! i) (rows new_centroids ! (cls ! i))
          < sqdist (rows pos ! i) (rows new_centroids ! k)"
        using better [OF i] by blast
    qed
    then show "?one new_centroids (zip (rows pos) batch ! i) (cls ! i)"
      using i lb by simp
  qed
  then have near': "nearest pos new_centroids batch centroids_batch = Inr cls"
    by (simp add: nearest_def nearest_rows_Inr)
  have "list_all (\<lambda>c. c < length (rows new_centroids)) cls"
    using rng nlen by simp
  then show ?thesis
    using update_centroids_entries [of nearest pos new_centroids batch centroids_batch cls]
      near' len wfp wfn ncols by blast
qed


lemma kw_update:
  "update_centroids nearest \<lparr>ncols = 3, rows = [[1, 0, 0], [9, 0, 0]]\<rparr> [0, 0]
     \<lparr>ncols = 3, rows = [[0, 0, 0], [10, 0, 0]]\<rparr> [0, 0] =
   Inr (\<lparr>ncols = 3, rows = [[1, 0, 0], [9, 0, 0]]\<rparr>, [0, 1])"
proof -
  let ?pos = "\<lparr>ncols = 3, rows = [[1, 0, 0], [9, 0, 0]]\<rparr>"
  let ?cen = "\<lparr>ncols = 3, rows = [[0, 0, 0], [10, 0, 0]]\<rparr>"
  let ?one = "\<lparr>ncols = 1, rows = [[1], [1]]\<rparr>"
  let ?zero = "\<lparr>ncols = 3, rows = [[0, 0, 0], [0, 0, 0]]\<rparr>"
  have n: "nearest ?pos ?cen [0, 0] [0, 0] = Inr [0, 1]"
    by (simp add: nearest_def nearest_one_def sqdist_def upt_conv_Cons)
  have u: "scatter_mean ?pos [0, 1] 2 = Inr ?pos"
    by (simp add: scatter_mean_def scatter_add_def scatter_index_def scatter_count_def
        gather_rows_def vadd_def upt_conv_Cons eval_nat_numeral)
  have m: "scatter_mean \<lparr>ncols = 1, rows = replicate 2 [1]\<rparr> [0, 1] 2 = Inr ?one"
    by (simp add: scatter_mean_def scatter_add_def scatter_index_def scatter_count_def
        gather_rows_def vadd_def upt_conv_Cons eval_nat_numeral)
  have a: "tensor_binop (*) ?pos ?one = Inr ?pos"
    by (simp add: tensor_binop_def compat_def bsize_def expand_def eval_nat_numeral)
  have b: "tensor_binop (*) ?cen (one_minus ?one) = Inr ?zero"
    by (simp add: tensor_binop_def compat_def bsize_def expand_def one_minus_def eval_nat_numeral)
  have c: "tensor_binop (+) ?pos ?zero = Inr ?pos"
    by (simp add: tensor_binop_def compat_def bsize_def expand_def)
  have r: "length (rows ?pos) = 2" "length (rows ?cen) = 2" by simp_all
  show ?thesis
    unfolding update_centroids_def Let_def r
    by (simp only: n u m a b c sum.case)
qed

theorem KMeans_assignment_stable_with_margin_witness:
  "update_centroids nearest \<lparr>ncols = 3, rows = [[1, 0, 0], [9, 0, 0]]\<rparr> [0, 0]
     \<lparr>ncols = 3, rows = [[0, 0, 0], [10, 0, 0]]\<rparr> [0, 0] =
     Inr (\<lparr>ncols = 3, rows = [[1, 0, 0], [9, 0, 0]]\<rparr>, [0, 1]) \<and>
   converged 2 \<lparr>ncols = 3, rows = [[0, 0, 0], [10, 0, 0]]\<rparr>
     \<lparr>ncols = 3, rows = [[1, 0, 0], [9, 0, 0]]\<rparr> = Inr True \<and>
   (\<exists>c. update_centroids nearest \<lparr>ncols = 3, rows = [[1, 0, 0], [9, 0, 0]]\<rparr> [0, 0]
     \<lparr>ncols = 3, rows = [[1, 0, 0], [9, 0, 0]]\<rparr> [0, 0] = Inr (c, [0, 1]))"
proof -
  let ?pos = "\<lparr>ncols = 3, rows = [[1, 0, 0], [9, 0, 0]]\<rparr>"
  let ?cen = "\<lparr>ncols = 3, rows = [[0, 0, 0], [10, 0, 0]]\<rparr>"
  have s81: "sqrt 81 = 9"
    using real_sqrt_abs [of 9] by simp
  have d: "tensor_binop (-) ?cen ?pos = Inr \<lparr>ncols = 3, rows = [[- 1, 0, 0], [1, 0, 0]]\<rparr>"
    by (simp add: tensor_binop_def compat_def bsize_def expand_def)
  have conv: "converged 2 ?cen ?pos = Inr True"
    unfolding converged_def d by (simp add: norm2_def)
  have margin: "\<forall>i<length (rows ?pos). \<forall>k<length (rows ?cen).
        k \<noteq> [0, 1] ! i \<longrightarrow> [0, 0] ! k = [0, 0 :: nat] ! i \<longrightarrow>
        sqrt (sqdist (rows ?pos ! i) (rows ?cen ! ([0, 1] ! i))) + 2 * 2
          \<le> sqrt (sqdist (rows ?pos ! i) (rows ?cen ! k))"
    by (auto simp: less_Suc_eq numeral_2_eq_2 sqdist_def s81)
  have "\<exists>c. update_centroids nearest ?pos [0, 0] ?pos [0, 0] = Inr (c, [0, 1])"
    using KMeans_assignment_stable_with_margin [OF kw_update conv _ _ _ _ margin]
    by (simp add: wf_tensor2_def)
  then show ?thesis
    using kw_update conv by simp
qed



section \<open>Properties of Bloom\<close>


lemma bloom_node_absolute:
  assumes "sig \<noteq> []" and "use_L1 \<longrightarrow> 4 \<le> length sig"
  shows "\<exists>pk n. bloom_node find_peaks i sig min_radius False absolute_min use_L1 =
           Inr (pk, replicate (Suc n) i, min_radius) \<and>
         ncols pk = 3 \<and> length (rows pk) = Suc n"
proof -
  let ?pr = "if 0 < vmax (map abs sig) then find_peaks sig else []"
  let ?keep = "filter (\<lambda>k. min_radius < map snd ?pr ! k) [0..<length (map snd ?pr)]"
  show ?thesis
  proof (cases "length ?keep = 0")
    case True
    have "ncols (fallback_peak sig use_L1) = 3 \<and> length (rows (fallback_peak sig use_L1)) = Suc 0"
      using assms(2) by (auto simp: fallback_peak_def zeros_def)
    moreover have "bloom_node find_peaks i sig min_radius False absolute_min use_L1 =
        Inr (fallback_peak sig use_L1, replicate (Suc 0) i, min_radius)"
      using assms(1) True by (simp add: bloom_node_def Let_def)
    ultimately show ?thesis by blast
  next
    case False
    then obtain n where n: "length ?keep = Suc n"
      by (cases "length ?keep") auto
    let ?pk = "\<lparr>ncols = 3,
        rows = map (\<lambda>k. map (\<lambda>x. x * (map snd ?pr ! k)) (map fst ?pr ! k)) ?keep\<rparr>"
    have "bloom_node find_peaks i sig min_radius False absolute_min use_L1 =
        Inr (?pk, replicate (length ?keep) i, min_radius)"
      using assms(1) False by (simp add: bloom_node_def Let_def)
    then show ?thesis
      using n by (intro exI [of _ ?pk] exI [of _ n]) simp
  qed
qed

lemma bloom_loop_absolute:
  assumes "list_all (\<lambda>sig. sig \<noteq> [] \<and> (use_L1 \<longrightarrow> 4 \<le> length sig)) sigs"
  shows "\<exists>ps idx. bloom_loop find_peaks i sigs min_radius False absolute_min use_L1 = Inr (ps, idx) \<and>
         length ps = length sigs \<and> list_all (\<lambda>t. ncols t = 3) ps \<and>
         length (concat (map rows ps)) = length idx \<and>
         length sigs \<le> length idx \<and> set idx = {i..<i + length sigs}"
  using assms
proof (induction sigs arbitrary: i)
  case Nil
  then show ?case by simp
next
  case (Cons sig sigs)
  from Cons.prems have s: "sig \<noteq> []" "use_L1 \<longrightarrow> 4 \<le> length sig"
    and rest: "list_all (\<lambda>sig. sig \<noteq> [] \<and> (use_L1 \<longrightarrow> 4 \<le> length sig)) sigs"
    by simp_all
  obtain pk n where node: "bloom_node find_peaks i sig min_radius False absolute_min use_L1 =
           Inr (pk, replicate (Suc n) i, min_radius)"
    and pk: "ncols pk = 3" "length (rows pk) = Suc n"
    using bloom_node_absolute [OF s] by blast
  obtain ps idx where loop: "bloom_loop find_peaks (Suc i) sigs min_radius False absolute_min use_L1 = Inr (ps, idx)"
    and ps: "length ps = length sigs" "list_all (\<lambda>t. ncols t = 3) ps"
      "length (concat (map rows ps)) = length idx" "length sigs \<le> length idx"
      "set idx = {Suc i..<Suc i + length sigs}"
    using Cons.IH [OF rest, of "Suc i"] by blast
  have "set (replicate (Suc n) i @ idx) = {i..<i + length (sig # sigs)}"
    using ps(5) by auto
  then show ?case
    using node loop pk ps by (intro exI [of _ "pk # ps"] exI [of _ "replicate (Suc n) i @ idx"]) simp
qed

lemma Bloom_forward_absolute_complete:
  assumes ne: "rows signal \<noteq> []"
    and sigs: "list_all (\<lambda>sig. sig \<noteq> [] \<and> (use_L1 \<longrightarrow> 4 \<le> length sig)) (rows signal)"
    and pos: "length (rows signal) \<le> length (rows pos)" "ncols pos = 3"
  shows "\<exists>out idx. Bloom_forward find_peaks signal pos min_radius False absolute_min use_L1 = Inr (out, idx) \<and>
         length (rows out) = length idx \<and> length (rows signal) \<le> length idx \<and>
         set idx = {0..<length (rows signal)}"
proof -
  obtain ps idx where loop: "bloom_loop find_peaks 0 (rows signal) min_radius False absolute_min use_L1 = Inr (ps, idx)"
    and ps: "length ps = length (rows signal)" "list_all (\<lambda>t. ncols t = 3) ps"
      "length (concat (map rows ps)) = length idx" "length (rows signal) \<le> length idx"
      "set idx = {0..<0 + length (rows signal)}"
    using bloom_loop_absolute [OF sigs, of find_peaks 0 min_radius absolute_min] by blast
  from ne ps(1) obtain t ts where pst: "ps = t # ts" by (cases ps) auto
  let ?all = "\<lparr>ncols = 3, rows = concat (map rows ps)\<rparr>"
  have cat: "tcat ps = Inr ?all"
    using ps(2) unfolding pst by (simp add: tcat_def list_all_iff)
  let ?sel = "\<lparr>ncols = ncols pos, rows = map (\<lambda>i. rows pos ! i) idx\<rparr>"
  have "\<not> list_ex (\<lambda>i. length (rows pos) \<le> i) idx"
    using ps(5) pos(1) by (auto simp: list_ex_iff)
  then have sel: "index_select pos idx = Inr ?sel"
    by (simp add: index_select_def)
  let ?out = "\<lparr>ncols = 3, rows = map2 (\<lambda>ra rb. map2 (+) (expand 3 ra) (expand 3 rb))
      (rows ?all) (rows ?sel)\<rparr>"
  have add: "tensor_binop (+) ?all ?sel = Inr ?out"
    using ps(3) pos(2) by (simp add: tensor_binop_def compat_def bsize_def expand_def Let_def)
  have "Bloom_forward find_peaks signal pos min_radius False absolute_min use_L1 = Inr (?out, idx)"
    unfolding Bloom_forward_def loop by (simp only: cat sel add sum.case prod.case)
  then show ?thesis
    using ps(3,4,5) by (intro exI [of _ ?out] exI [of _ idx]) simp
qed

text \<open>
  Claim C5 is not met by the code with \<open>percentage=True\<close>, where \<open>keep_indices\<close> is the
  boolean mask and not the list of kept indices (with \<open>percentage=False\<close> every node gets a
  point, see \<open>Bloom_forward_absolute_complete\<close>). A node with an all-zero signal makes
  \<open>torch.max(radii)\<close> raise on the empty tensor; and a single node whose only peak is below
  the threshold gets no peak position at all, although its index is returned once.
\<close>

theorem Bloom_percentage_drops_nodes:
  "Bloom_forward find_peaks \<lparr>ncols = 4, rows = [[0, 0, 0, 0]]\<rparr> \<lparr>ncols = 3, rows = [[0, 0, 0]]\<rparr>
     (1 / 10) True (1 / 100) True = Inl RuntimeError \<and>
   Bloom_forward (\<lambda>sig. [([1, 0, 0], 1 / 200)]) \<lparr>ncols = 4, rows = [[1, 0, 0, 0]]\<rparr>
     \<lparr>ncols = 3, rows = [[0, 0, 0]]\<rparr> (1 / 10) True (1 / 100) True =
     Inr (\<lparr>ncols = 3, rows = []\<rparr>, [0])"
  by (simp add: Bloom_forward_def bloom_node_def tcat_def index_select_def tensor_binop_def
      compat_def bsize_def expand_def Let_def)



section \<open>Properties of SymmetricKMeans\<close>


lemma mset_concat_three_filters:
  assumes "\<And>g. g \<in> set gs \<Longrightarrow> (A g \<and> \<not> B g \<and> \<not> C g) \<or> (\<not> A g \<and> B g \<and> \<not> C g) \<or> (\<not> A g \<and> \<not> B g \<and> C g)"
  shows "mset (concat (filter A gs)) + mset (concat (filter B gs)) + mset (concat (filter C gs))
       = mset (concat gs)"
  using assms
proof (induction gs)
  case Nil
  then show ?case by simp
next
  case (Cons g gs)
  have "mset (concat (filter A gs)) + mset (concat (filter B gs)) + mset (concat (filter C gs))
       = mset (concat gs)"
    using Cons.prems by (intro Cons.IH) simp
  moreover have "(A g \<and> \<not> B g \<and> \<not> C g) \<or> (\<not> A g \<and> B g \<and> \<not> C g) \<or> (\<not> A g \<and> \<not> B g \<and> C g)"
    using Cons.prems by simp
  ultimately show ?case by (auto simp: ac_simps)
qed

lemma mset_concat_merge_edge: "mset (concat (merge_edge e gs)) = mset (concat gs)"
proof -
  let ?A = "\<lambda>g. fst e \<in> set g" and ?B = "\<lambda>g. snd e \<in> set g \<and> fst e \<notin> set g"
  let ?C = "\<lambda>g. fst e \<notin> set g \<and> snd e \<notin> set g"
  let ?ga = "concat (filter ?A gs)" and ?gb = "concat (filter ?B gs)"
  have three: "mset ?ga + mset ?gb + mset (concat (filter ?C gs)) = mset (concat gs)"
    by (rule mset_concat_three_filters) auto
  show ?thesis
  proof (cases "?ga = [] \<and> ?gb = []")
    case True
    then have m: "merge_edge e gs = filter ?C gs"
      by (simp add: merge_edge_def Let_def)
    have "mset ?ga = mset []" "mset ?gb = mset []"
      using True by (blast intro: arg_cong [where f = mset])+
    then have e: "mset ?ga = {#}" "mset ?gb = {#}"
      by (simp_all only: mset.simps)
    show ?thesis
      using three unfolding m e by (simp only: add_0)
  next
    case False
    then have "merge_edge e gs = (?ga @ ?gb) # filter ?C gs"
      by (simp add: merge_edge_def Let_def)
    then show ?thesis using three by (simp add: ac_simps)
  qed
qed

lemma merge_edge_nonempty:
  "list_all (\<lambda>g. g \<noteq> []) gs \<Longrightarrow> list_all (\<lambda>g. g \<noteq> []) (merge_edge e gs)"
  by (auto simp: merge_edge_def Let_def list_all_iff)

lemma merge_edge_connected:
  assumes r: "sym r" "trans r" and e: "(fst e, snd e) \<in> r"
    and gs: "\<And>g x y. g \<in> set gs \<Longrightarrow> x \<in> set g \<Longrightarrow> y \<in> set g \<Longrightarrow> (x, y) \<in> r"
    and g: "g \<in> set (merge_edge e gs)" and x: "x \<in> set g" and y: "y \<in> set g"
  shows "(x, y) \<in> r"
proof -
  let ?ga = "concat (filter (\<lambda>g. fst e \<in> set g) gs)"
  let ?gb = "concat (filter (\<lambda>g. snd e \<in> set g \<and> fst e \<notin> set g) gs)"
  have a: "(z, fst e) \<in> r" if "z \<in> set ?ga" for z
    using that gs by auto
  have b: "(z, snd e) \<in> r" if "z \<in> set ?gb" for z
    using that gs by auto
  have ab: "(z, fst e) \<in> r" if "z \<in> set (?ga @ ?gb)" for z
  proof (cases "z \<in> set ?ga")
    case True
    then show ?thesis by (rule a)
  next
    case False
    with that have "z \<in> set ?gb" by (simp only: set_append Un_iff) blast
    then have "(z, snd e) \<in> r" by (rule b)
    moreover have "(snd e, fst e) \<in> r" using e r(1) by (meson symD)
    ultimately show ?thesis using r(2) by (meson transD)
  qed
  from g consider "g \<in> set gs" | "g = ?ga @ ?gb"
    by (auto simp: merge_edge_def Let_def split: if_splits)
  then show ?thesis
  proof cases
    case 1
    then show ?thesis using gs x y by blast
  next
    case 2
    then have "(x, fst e) \<in> r" "(y, fst e) \<in> r"
      using ab x y by blast+
    then show ?thesis using r by (meson symD transD)
  qed
qed


lemma fold_merge_edge_inv:
  assumes "set es' \<subseteq> set es"
    and "mset (concat gs) = M" and "list_all (\<lambda>g. g \<noteq> []) gs"
    and "\<And>g x y. g \<in> set gs \<Longrightarrow> x \<in> set g \<Longrightarrow> y \<in> set g \<Longrightarrow> (x, y) \<in> (set es \<union> (set es)\<inverse>)\<^sup>*"
  shows "mset (concat (fold merge_edge es' gs)) = M \<and>
         list_all (\<lambda>g. g \<noteq> []) (fold merge_edge es' gs) \<and>
         (\<forall>g\<in>set (fold merge_edge es' gs). \<forall>x\<in>set g. \<forall>y\<in>set g.
            (x, y) \<in> (set es \<union> (set es)\<inverse>)\<^sup>*)"
  using assms
proof (induction es' arbitrary: gs)
  case Nil
  then show ?case by auto
next
  case (Cons e es')
  let ?r = "(set es \<union> (set es)\<inverse>)\<^sup>*"
  have s: "sym ?r"
    by (intro sym_rtrancl sym_Un_converse)
  have t: "trans ?r"
    by (rule trans_rtrancl)
  have "(fst e, snd e) \<in> set es"
    using Cons.prems(1) by simp
  then have e: "(fst e, snd e) \<in> ?r"
    by blast
  have "\<And>g x y. g \<in> set (merge_edge e gs) \<Longrightarrow> x \<in> set g \<Longrightarrow> y \<in> set g \<Longrightarrow> (x, y) \<in> ?r"
    using merge_edge_connected [OF s t e] Cons.prems(4) by blast
  moreover have "mset (concat (merge_edge e gs)) = M"
    using Cons.prems(2) by (simp add: mset_concat_merge_edge)
  moreover have "list_all (\<lambda>g. g \<noteq> []) (merge_edge e gs)"
    using Cons.prems(3) by (rule merge_edge_nonempty)
  moreover have "set es' \<subseteq> set es"
    using Cons.prems(1) by simp
  ultimately show ?case
    using Cons.IH [of "merge_edge e gs"] by simp
qed

lemma mset_concat_cong: "mset xs = mset ys \<Longrightarrow> mset (concat xs) = mset (concat ys)"
  by (metis mset_concat mset_map sum_mset_sum_list)

lemma mset_concat_map_sort: "mset (concat (map sort gs)) = mset (concat (gs :: nat list list))"
  by (induction gs) simp_all

lemma fold_merge_edge_init:
  "mset (concat (fold merge_edge es (map (\<lambda>n. [n]) [0..<N]))) = mset [0..<N] \<and>
   list_all (\<lambda>g. g \<noteq> []) (fold merge_edge es (map (\<lambda>n. [n]) [0..<N])) \<and>
   (\<forall>g\<in>set (fold merge_edge es (map (\<lambda>n. [n]) [0..<N])). \<forall>x\<in>set g. \<forall>y\<in>set g.
      (x, y) \<in> (set es \<union> (set es)\<inverse>)\<^sup>*)"
proof (rule fold_merge_edge_inv)
  show "set es \<subseteq> set es" ..
  have "concat (map (\<lambda>n. [n]) [0..<N]) = [0..<N]"
    by (induction N) simp_all
  then show "mset (concat (map (\<lambda>n. [n]) [0..<N])) = mset [0..<N]"
    by (simp only:)
  show "list_all (\<lambda>g. g \<noteq> []) (map (\<lambda>n. [n]) [0..<N])"
    by (simp add: list_all_iff)
next
  fix g x y
  assume "g \<in> set (map (\<lambda>n. [n]) [0..<N])" "x \<in> set g" "y \<in> set g"
  then have "x = y" by auto
  then show "(x, y) \<in> (set es \<union> (set es)\<inverse>)\<^sup>*" by simp
qed

lemma connected_components_mset:
  "mset (concat (connected_components N es)) = mset [0..<N]"
proof -
  have "mset (concat (connected_components N es)) =
        mset (concat (fold merge_edge es (map (\<lambda>n. [n]) [0..<N])))"
  proof -
    have "mset (concat (sort_key hd X)) = mset (concat X)" for X :: "nat list list"
      by (rule mset_concat_cong) simp
    then show ?thesis
      unfolding connected_components_def by (simp only: mset_concat_map_sort)
  qed
  then show ?thesis
    using fold_merge_edge_init [of es N] by (simp only:)
qed

lemma connected_components_groups:
  assumes "g \<in> set (connected_components N es)"
  shows "g \<noteq> [] \<and> (\<forall>x\<in>set g. \<forall>y\<in>set g. (x, y) \<in> (set es \<union> (set es)\<inverse>)\<^sup>*)"
proof -
  let ?g0 = "map (\<lambda>n. [n]) [0..<N]"
  note inv = fold_merge_edge_init [of es N]
  from assms obtain g0 where g0: "g0 \<in> set (fold merge_edge es ?g0)" and g: "g = sort g0"
    by (auto simp: connected_components_def)
  have "g0 \<noteq> []" using inv g0 by (auto simp: list_all_iff)
  then have "g \<noteq> []" using g by (metis length_sort length_0_conv)
  moreover have "set g = set g0" using g by simp
  ultimately show ?thesis using inv g0 by blast
qed

lemma fold_update_length: "length (fold (\<lambda>n l. l[n := i]) g lab) = length lab"
  by (induction g arbitrary: lab) simp_all

lemma fold_update_nth:
  "m < length lab \<Longrightarrow>
   fold (\<lambda>n l. l[n := i]) g lab ! m = (if m \<in> set g then i else lab ! (m :: nat))"
proof (induction g arbitrary: lab)
  case Nil
  then show ?case by simp
next
  case (Cons a g)
  then show ?case by (auto simp: nth_list_update)
qed

lemma assign_labels_snoc:
  "assign_labels N (gs @ [g]) = fold (\<lambda>n l. l[n := length gs]) g (assign_labels N gs)"
  by (simp add: assign_labels_def)

lemma assign_labels_length: "length (assign_labels N gs) = N"
  by (induction gs rule: rev_induct) (simp_all add: assign_labels_snoc fold_update_length assign_labels_def)

lemma assign_labels_nth:
  "distinct (concat gs) \<Longrightarrow> i < length gs \<Longrightarrow> n \<in> set (gs ! i) \<Longrightarrow> n < N \<Longrightarrow>
   assign_labels N gs ! n = i"
proof (induction gs arbitrary: i rule: rev_induct)
  case Nil
  then show ?case by simp
next
  case (snoc g gs)
  have d: "distinct (concat gs)" and disj: "set (concat gs) \<inter> set g = {}"
    using snoc.prems(1) by auto
  have len: "n < length (assign_labels N gs)"
    using snoc.prems(4) by (simp add: assign_labels_length)
  show ?case
  proof (cases "i < length gs")
    case True
    then have in_i: "n \<in> set (gs ! i)"
      using snoc.prems(3) by (simp add: nth_append)
    then have "n \<in> set (concat gs)"
      using True by auto
    then have "n \<notin> set g" using disj by blast
    moreover have "assign_labels N gs ! n = i"
      using snoc.IH [OF d True in_i snoc.prems(4)] .
    ultimately show ?thesis
      using len by (simp add: assign_labels_snoc fold_update_nth)
  next
    case False
    then have i: "i = length gs" using snoc.prems(2) by simp
    then have "n \<in> set g" using snoc.prems(3) by simp
    then show ?thesis
      using len i by (simp add: assign_labels_snoc fold_update_nth)
  qed
qed


lemma rtrancl_same_value:
  assumes "(x, y) \<in> (set es \<union> (set es)\<inverse>)\<^sup>*"
    and "\<And>a b. (a, b) \<in> set es \<Longrightarrow> f a = f b"
  shows "f x = f y"
  using assms(1)
proof (induction rule: rtrancl_induct)
  case base
  then show ?case by simp
next
  case (step y z)
  then show ?case using assms(2) by auto
qed

lemma Max_upt: "0 < k \<Longrightarrow> Max {0..<k::nat} = k - 1"
proof -
  assume "0 < k"
  then have "Max {0..<k} = k - 1"
    by (intro Max_eqI) auto
  then show ?thesis .
qed

lemma component_labels:
  assumes N: "0 < N"
    and same: "\<And>a b. (a, b) \<in> set es \<Longrightarrow> f a = f b"
  shows "length (assign_labels N (connected_components N es)) = N"
    and "\<forall>c<Max (set (assign_labels N (connected_components N es))) + 1.
           \<exists>n<N. assign_labels N (connected_components N es) ! n = c"
    and "\<forall>n<N. \<forall>n'<N. assign_labels N (connected_components N es) ! n =
           assign_labels N (connected_components N es) ! n' \<longrightarrow> f n = f n'"
proof -
  let ?gs = "connected_components N es"
  let ?lab = "assign_labels N ?gs"
  have m: "mset (concat ?gs) = mset [0..<N]"
    by (rule connected_components_mset)
  have d: "distinct (concat ?gs)"
    using mset_eq_imp_distinct_iff [OF m] by simp
  have st: "set (concat ?gs) = {0..<N}"
    using mset_eq_setD [OF m] by simp
  show len: "length ?lab = N"
    by (rule assign_labels_length)
  have grp: "\<exists>i<length ?gs. n \<in> set (?gs ! i) \<and> ?lab ! n = i" if n: "n < N" for n
  proof -
    from n have "n \<in> {0..<N}" by simp
    then have "n \<in> set (concat ?gs)" by (simp only: st)
    then obtain g where "g \<in> set ?gs" "n \<in> set g" by auto
    then obtain i where i: "i < length ?gs" "n \<in> set (?gs ! i)"
      by (auto simp: in_set_conv_nth)
    then have "?lab ! n = i"
      using assign_labels_nth [OF d i n] by simp
    with i show ?thesis by blast
  qed
  have hit: "\<exists>n<N. ?lab ! n = i" if i: "i < length ?gs" for i
  proof -
    have g: "?gs ! i \<in> set ?gs" using i by simp
    then have "?gs ! i \<noteq> []" using connected_components_groups by blast
    then obtain n where n: "n \<in> set (?gs ! i)" by (cases "?gs ! i") auto
    then have "n \<in> set (concat ?gs)" using g by auto
    then have "n \<in> {0..<N}" by (simp only: st)
    then have nN: "n < N" by simp
    have "?lab ! n = i"
      by (rule assign_labels_nth [OF d i n nN])
    with nN show ?thesis by blast
  qed
  have ne: "?gs \<noteq> []"
    using grp [OF N] by auto
  have "set ?lab = {0..<length ?gs}"
  proof (intro equalityI subsetI)
    fix c assume "c \<in> set ?lab"
    then obtain n where "n < N" "?lab ! n = c"
      using len by (auto simp: in_set_conv_nth)
    then show "c \<in> {0..<length ?gs}" using grp by fastforce
  next
    fix c assume "c \<in> {0..<length ?gs}"
    then obtain n where "n < N" "?lab ! n = c" using hit by auto
    then show "c \<in> set ?lab" using len by (auto simp: in_set_conv_nth)
  qed
  then have "Max (set ?lab) + 1 = length ?gs"
    using ne Max_upt [of "length ?gs"] by simp
  then show "\<forall>c<Max (set ?lab) + 1. \<exists>n<N. ?lab ! n = c"
    using hit by simp
  show "\<forall>n<N. \<forall>n'<N. ?lab ! n = ?lab ! n' \<longrightarrow> f n = f n'"
  proof (intro allI impI)
    fix n n' assume n: "n < N" and n': "n' < N" and eq: "?lab ! n = ?lab ! n'"
    obtain i where i: "i < length ?gs" "n \<in> set (?gs ! i)" "?lab ! n = i"
      using grp [OF n] by blast
    obtain i' where i': "i' < length ?gs" "n' \<in> set (?gs ! i')" "?lab ! n' = i'"
      using grp [OF n'] by blast
    from eq i(3) i'(3) have "i' = i" by simp
    with i' have "n' \<in> set (?gs ! i)" by simp
    moreover have "?gs ! i \<in> set ?gs" using i(1) by simp
    ultimately have "(n, n') \<in> (set es \<union> (set es)\<inverse>)\<^sup>*"
      using connected_components_groups i(2) by blast
    then show "f n = f n'"
      using same by (rule rtrancl_same_value)
  qed
qed




lemma concat_blocks_length:
  "(\<And>r. r < R \<Longrightarrow> length (f r) = N) \<Longrightarrow> length (concat (map f [0..<R])) = R * N"
  by (induction R) simp_all

lemma concat_blocks_nth:
  assumes "\<And>r. r < R \<Longrightarrow> length (f r) = N" and "i < R * N"
  shows "concat (map f [0..<R]) ! i = f (i div N) ! (i mod N)"
  using assms
proof (induction R)
  case 0
  then show ?case by simp
next
  case (Suc R)
  have len: "length (concat (map f [0..<R])) = R * N"
    using Suc.prems(1) by (intro concat_blocks_length) simp
  show ?case
  proof (cases "i < R * N")
    case True
    then show ?thesis
      using Suc.IH Suc.prems(1) len by (simp add: nth_append)
  next
    case False
    then obtain j where j: "i = R * N + j" "j < N"
      using Suc.prems(2) by (metis add.commute le_Suc_ex less_diff_conv2 mult_Suc nat_add_left_cancel_less not_less add_diff_cancel_left')
    then have "i div N = R" "i mod N = j"
      by simp_all
    then show ?thesis
      using False len j by (simp add: nth_append)
  qed
qed

lemma length_big_batch: "length (big_batch R batch) = R * length batch"
  unfolding big_batch_def by (rule concat_blocks_length) simp

lemma big_batch_nth:
  "i < R * length batch \<Longrightarrow>
   big_batch R batch ! i = batch ! (i mod length batch) + (i div length batch) * (Max (set batch) + 1)"
proof -
  assume i: "i < R * length batch"
  then have m: "i mod length batch < length batch"
    by (cases "length batch = 0") simp_all
  have "big_batch R batch ! i =
      map (\<lambda>b. b + (i div length batch) * (Max (set batch) + 1)) batch ! (i mod length batch)"
    unfolding big_batch_def using i by (intro concat_blocks_nth) simp_all
  then show ?thesis using m by simp
qed

lemma length_big_pos: "length (rows (big_pos R pos)) = R * length (rows pos)"
proof -
  have "concat (replicate R (rows pos)) = concat (map (\<lambda>r. rows pos) [0..<R])"
    by (simp add: map_replicate_trivial)
  then show ?thesis
    unfolding big_pos_def by (simp add: concat_blocks_length del: map_replicate_trivial)
qed

lemma wf_big_pos: "wf_tensor2 pos \<Longrightarrow> wf_tensor2 (big_pos R pos)"
  by (auto simp: wf_tensor2_def big_pos_def list_all_iff)

lemma ncols_big_pos [simp]: "ncols (big_pos R pos) = ncols pos"
  by (simp add: big_pos_def)

lemma set_big_batch:
  "set (big_batch R batch) = (\<Union>r\<in>{0..<R}. (\<lambda>b. b + r * (Max (set batch) + 1)) ` set batch)"
  by (auto simp: big_batch_def)

lemma Max_big_batch:
  assumes "0 < R" and "batch \<noteq> []"
  shows "Max (set (big_batch R batch)) + 1 = R * (Max (set batch) + 1)"
proof -
  let ?B = "Max (set batch) + 1"
  have "Max (set (big_batch R batch)) = Max (set batch) + (R - 1) * ?B"
  proof (rule Max_eqI)
    show "finite (set (big_batch R batch))" by simp
  next
    fix y assume "y \<in> set (big_batch R batch)"
    then obtain r b where r: "r < R" and b: "b \<in> set batch" and y: "y = b + r * ?B"
      by (auto simp: set_big_batch)
    have "b \<le> Max (set batch)" using b by simp
    moreover have "r * ?B \<le> (R - 1) * ?B" using r by (intro mult_right_mono) simp_all
    ultimately show "y \<le> Max (set batch) + (R - 1) * ?B" using y by linarith
  next
    have "Max (set batch) \<in> set batch" using assms(2) by (intro Max_in) simp_all
    then show "Max (set batch) + (R - 1) * ?B \<in> set (big_batch R batch)"
      using assms(1) unfolding set_big_batch by (intro UN_I [of "R - 1"]) simp_all
  qed
  moreover have "R * ?B = (R - 1) * ?B + ?B"
    using assms(1) by (cases R) simp_all
  ultimately show ?thesis by simp
qed

lemma length_chunks [simp]: "length (chunks R c xs) = R"
  by (induction R arbitrary: xs) simp_all

lemma chunks_nth:
  "r < R \<Longrightarrow> chunks R c xs ! r = take c (drop (r * c) xs)"
proof (induction R arbitrary: xs r)
  case 0
  then show ?case by simp
next
  case (Suc R)
  show ?case
  proof (cases r)
    case 0
    then show ?thesis by simp
  next
    case (Suc r')
    then show ?thesis using Suc.IH [of r' "drop c xs"] Suc.prems by (simp add: add.commute)
  qed
qed

lemma chunks_nth_nth:
  "r < R \<Longrightarrow> n < c \<Longrightarrow> length xs = R * c \<Longrightarrow> chunks R c xs ! r ! n = xs ! (r * c + n)"
proof -
  assume r: "r < R" and n: "n < c" and l: "length xs = R * c"
  have "r * c + c \<le> R * c"
    using r by (metis Suc_leI mult_Suc mult_le_mono1 add.commute)
  then have "r * c + n < length xs" using n l by linarith
  then show ?thesis using r n by (simp add: chunks_nth)
qed


lemma list_all2_exists:
  "(\<And>x. x \<in> set xs \<Longrightarrow> \<exists>y. P x y) \<Longrightarrow> \<exists>ys. list_all2 P xs ys"
proof (induction xs)
  case Nil
  then show ?case by simp
next
  case (Cons x xs)
  from Cons.prems obtain y where y: "P x y" by auto
  from Cons.IH Cons.prems obtain ys where ys: "list_all2 P xs ys" by auto
  from y ys have "list_all2 P (x # xs) (y # ys)" by simp
  then show ?case ..
qed

lemma nearest_one_returns:
  assumes "j < length (rows c)" and "cb ! j = b"
  shows "\<exists>k. nearest_one p b c cb = Inr k"
proof -
  have "j \<in> set (filter (\<lambda>j. cb ! j = b) [0..<length (rows c)])"
    using assms by simp
  then have "filter (\<lambda>j. cb ! j = b) [0..<length (rows c)] \<noteq> []"
    by (metis empty_iff empty_set)
  then show ?thesis
    by (auto simp: nearest_one_def split: list.splits)
qed

lemma nearest_returns:
  assumes cand: "\<And>i. i < length (rows pos) \<Longrightarrow> \<exists>j<length (rows c). cb ! j = batch ! i"
    and len: "length batch = length (rows pos)"
  shows "\<exists>cls. nearest pos c batch cb = Inr cls \<and> length cls = length (rows pos) \<and>
     (\<forall>i<length (rows pos). cls ! i < length (rows c) \<and> cb ! (cls ! i) = batch ! i)"
proof -
  let ?P = "\<lambda>pb j. nearest_one (fst pb) (snd pb) c cb = Inr j"
  have "\<exists>y. ?P x y" if "x \<in> set (zip (rows pos) batch)" for x
  proof -
    from that obtain i where i: "i < length (rows pos)" and x: "x = (rows pos ! i, batch ! i)"
      using len by (auto simp: in_set_conv_nth)
    from cand [OF i] obtain j where "j < length (rows c)" "cb ! j = batch ! i" by blast
    then show ?thesis
      using nearest_one_returns [of j c cb "batch ! i" "rows pos ! i"] x by simp
  qed
  then obtain cls where la2: "list_all2 ?P (zip (rows pos) batch) cls"
    using list_all2_exists [of "zip (rows pos) batch" ?P] by blast
  then have n: "nearest pos c batch cb = Inr cls"
    by (simp add: nearest_def nearest_rows_Inr)
  have l: "length cls = length (rows pos)"
    using la2 len by (auto dest: list_all2_lengthD)
  have "cls ! i < length (rows c) \<and> cb ! (cls ! i) = batch ! i" if i: "i < length (rows pos)" for i
  proof -
    have "nearest_one (rows pos ! i) (batch ! i) c cb = Inr (cls ! i)"
      using list_all2_nthD [OF la2, of i] i len by simp
    then show ?thesis by (rule nearest_one_Inr)
  qed
  with n l show ?thesis by blast
qed

lemma converged_returns:
  assumes "length (rows a) = length (rows b)" "wf_tensor2 a" "wf_tensor2 b" "ncols b = ncols a"
  shows "\<exists>r. converged t a b = Inr r"
proof -
  obtain d where "tensor_binop (-) a b = Inr d"
    using tensor_binop_cols [of a b "(-)"] assms by auto
  then show ?thesis by (simp add: converged_def)
qed

lemma kmeans_loop_returns:
  assumes wfp: "wf_tensor2 pos" and lb: "length batch = length (rows pos)"
    and wfc: "wf_tensor2 centroids" and cols: "ncols centroids = ncols pos"
    and M: "length (rows centroids) = M"
    and cand: "\<And>i. i < length (rows pos) \<Longrightarrow> \<exists>j<M. cb ! j = batch ! i"
    and prev0: "n = 0 \<Longrightarrow> prev \<noteq> None"
    and prev: "\<And>cls. prev = Some cls \<Longrightarrow> length cls = length (rows pos) \<and>
        (\<forall>i<length (rows pos). cls ! i < M \<and> cb ! (cls ! i) = batch ! i)"
  shows "\<exists>cls cen. kmeans_loop nearest t n pos batch centroids cb prev = Inr (cls, cen, cb) \<and>
     length cls = length (rows pos) \<and>
     (\<forall>i<length (rows pos). cls ! i < M \<and> cb ! (cls ! i) = batch ! i) \<and>
     length (rows cen) = M \<and> wf_tensor2 cen \<and> ncols cen = ncols pos"
  using wfc cols M prev0 prev
proof (induction n arbitrary: centroids prev)
  case 0
  then obtain cls where "prev = Some cls" by auto
  then show ?case using 0 by auto
next
  case (Suc n)
  obtain cls where near: "nearest pos centroids batch cb = Inr cls"
    and len: "length cls = length (rows pos)"
    and good: "\<forall>i<length (rows pos). cls ! i < M \<and> cb ! (cls ! i) = batch ! i"
    using nearest_returns [of pos centroids cb batch] cand lb Suc.prems(3) by auto
  have rng: "list_all (\<lambda>c. c < length (rows centroids)) cls"
    using good len Suc.prems(3) by (auto simp: list_all_iff in_set_conv_nth)
  obtain new where upd: "update_centroids nearest pos batch centroids cb = Inr (new, cls)"
    and nlen: "length (rows new) = M" and ncols: "ncols new = ncols pos" and wfn: "wf_tensor2 new"
    using update_centroids_entries [of nearest pos centroids batch cb cls]
      near len rng wfp Suc.prems(1,2,3) by auto
  obtain r where conv: "converged t centroids new = Inr r"
    using converged_returns [of centroids new t] Suc.prems(1,2,3) nlen wfn ncols by auto
  show ?case
  proof (cases r)
    case True
    then show ?thesis
      using upd conv len good nlen wfn ncols by simp
  next
    case False
    have "\<exists>cls' cen. kmeans_loop nearest t n pos batch new cb (Some cls) = Inr (cls', cen, cb) \<and>
       length cls' = length (rows pos) \<and>
       (\<forall>i<length (rows pos). cls' ! i < M \<and> cb ! (cls' ! i) = batch ! i) \<and>
       length (rows cen) = M \<and> wf_tensor2 cen \<and> ncols cen = ncols pos"
      using len good by (intro Suc.IH [OF wfn ncols nlen]) simp_all
    then show ?thesis
      using upd conv False by simp
  qed
qed


lemma KMeans_forward_returns:
  assumes wfp: "wf_tensor2 pos" and lb: "length batch = length (rows pos)"
    and wfs: "wf_tensor2 sp" and cols: "ncols sp = ncols pos"
    and it: "0 < max_iter km"
    and S: "fps sp sb ratio = S"
    and rng: "list_all (\<lambda>s. s < length (rows sp) \<and> s < length sb) S"
    and cand: "\<And>i. i < length (rows pos) \<Longrightarrow> \<exists>j<length S. sb ! (S ! j) = batch ! i"
  shows "\<exists>cls cen cb. KMeans_forward nearest fps km pos batch (Some (sp, sb)) ratio = Inr (cls, cen, cb) \<and>
     length cls = length (rows pos) \<and>
     (\<forall>i<length (rows pos). cls ! i < length (rows cen) \<and> cb ! (cls ! i) = batch ! i) \<and>
     wf_tensor2 cen \<and> ncols cen = ncols pos"
proof -
  let ?cen = "\<lparr>ncols = ncols sp, rows = map (\<lambda>i. rows sp ! i) S\<rparr>"
  let ?cb = "map (\<lambda>i. sb ! i) S"
  have sel: "index_select sp S = Inr ?cen"
    using rng by (auto simp: index_select_def list_ex_iff list_all_iff)
  have selb: "select_list sb S = Inr ?cb"
    using rng by (auto simp: select_list_def list_ex_iff list_all_iff)
  have wfc: "wf_tensor2 ?cen"
    using wfs rng by (auto simp: wf_tensor2_def list_all_iff)
  have cand': "\<exists>j<length S. ?cb ! j = batch ! i" if "i < length (rows pos)" for i
    using cand [OF that] by auto
  have "\<exists>cls cen. kmeans_loop nearest (tol km) (max_iter km) pos batch ?cen ?cb None = Inr (cls, cen, ?cb) \<and>
     length cls = length (rows pos) \<and>
     (\<forall>i<length (rows pos). cls ! i < length S \<and> ?cb ! (cls ! i) = batch ! i) \<and>
     length (rows cen) = length S \<and> wf_tensor2 cen \<and> ncols cen = ncols pos"
    using wfp lb wfc cols cand' it by (intro kmeans_loop_returns) simp_all
  then obtain cls cen where
    "kmeans_loop nearest (tol km) (max_iter km) pos batch ?cen ?cb None = Inr (cls, cen, ?cb)"
    "length cls = length (rows pos)"
    "\<forall>i<length (rows pos). cls ! i < length S \<and> ?cb ! (cls ! i) = batch ! i"
    "length (rows cen) = length S" "wf_tensor2 cen" "ncols cen = ncols pos"
    by blast
  note k = this
  have "KMeans_forward nearest fps km pos batch (Some (sp, sb)) ratio = Inr (cls, cen, ?cb)"
    using S sel selb k(1) by (simp add: KMeans_forward_def)
  moreover have "\<forall>i<length (rows pos). cls ! i < length (rows cen) \<and> ?cb ! (cls ! i) = batch ! i"
    using k(3) unfolding k(4) .
  ultimately show ?thesis
    using k(2,5,6) by blast
qed

lemma score_returns:
  assumes wfp: "wf_tensor2 pos" and lb: "length batch = length (rows pos)" and ne: "batch \<noteq> []"
    and wfc: "wf_tensor2 cen" and cols: "ncols cen = ncols pos"
    and len: "length cls = length (rows pos)"
    and rng: "\<forall>i<length (rows pos). cls ! i < length (rows cen)"
  shows "\<exists>sc. score p pos batch cen cls = Inr sc \<and> length sc = Max (set batch) + 1"
proof -
  let ?cs = "\<lparr>ncols = ncols cen, rows = map (\<lambda>i. rows cen ! i) cls\<rparr>"
  have inr: "c < length (rows cen)" if "c \<in> set cls" for c
  proof -
    from that obtain i where "i < length cls" "cls ! i = c" by (auto simp: in_set_conv_nth)
    then show ?thesis using rng len by auto
  qed
  then have "\<not> list_ex (\<lambda>i. length (rows cen) \<le> i) cls"
    unfolding list_ex_iff by (meson not_le)
  then have sel: "index_select cen cls = Inr ?cs"
    by (simp add: index_select_def)
  have "length (rows cen ! c) = ncols cen" if "c \<in> set cls" for c
    using inr [OF that] wfc by (auto simp: wf_tensor2_def list_all_iff)
  then have wfcs: "wf_tensor2 ?cs"
    by (auto simp: wf_tensor2_def list_all_iff)
  obtain d where d: "tensor_binop (-) pos ?cs = Inr d" and dl: "length (rows d) = length (rows pos)"
    using tensor_binop_cols [of pos ?cs "(-)"] wfp wfcs len cols by auto
  show ?thesis
    using sel d dl lb ne by (simp add: score_def scatter_add1_def)
qed




lemma set_spspmm_index:
  "set (spspmm_index a b n) = {(i, j). \<exists>k. (i, k) \<in> set a \<and> (k, j) \<in> set b}"
proof -
  have "set (spspmm_index a b n) =
      (\<Union>x\<in>set a. (\<lambda>y. (fst x, snd y)) ` {y \<in> set b. fst y = snd x})"
    by (simp add: spspmm_index_def case_prod_beta)
  also have "\<dots> = {(i, j). \<exists>k. (i, k) \<in> set a \<and> (k, j) \<in> set b}"
  proof (intro equalityI subsetI)
    fix p assume "p \<in> (\<Union>x\<in>set a. (\<lambda>y. (fst x, snd y)) ` {y \<in> set b. fst y = snd x})"
    then obtain x y where "x \<in> set a" "y \<in> set b" "fst y = snd x" "p = (fst x, snd y)"
      by blast
    then have "(fst p, snd x) \<in> set a \<and> (snd x, snd p) \<in> set b"
      by (metis fst_conv snd_conv prod.collapse)
    then show "p \<in> {(i, j). \<exists>k. (i, k) \<in> set a \<and> (k, j) \<in> set b}"
      by (cases p) auto
  next
    fix p assume "p \<in> {(i, j). \<exists>k. (i, k) \<in> set a \<and> (k, j) \<in> set b}"
    then obtain i j k where p: "p = (i, j)" and "(i, k) \<in> set a" "(k, j) \<in> set b"
      by blast
    then show "p \<in> (\<Union>x\<in>set a. (\<lambda>y. (fst x, snd y)) ` {y \<in> set b. fst y = snd x})"
      by force
  qed
  finally show ?thesis .
qed


lemma best_classifications_range:
  assumes "(r, m) \<in> set (spspmm_index best (zip batch [0..<length batch]) k)"
    and "\<And>r b. (r, b) \<in> set best \<Longrightarrow> r < R"
  shows "r < R \<and> m < length batch"
proof -
  from assms(1) obtain b where rb: "(r, b) \<in> set best"
    and bm: "(b, m) \<in> set (zip batch [0..<length batch])"
    unfolding set_spspmm_index by blast
  from bm have "m \<in> set [0..<length batch]" by (rule set_zip_rightD)
  then show ?thesis using assms(2) [OF rb] by simp
qed

lemma cluster_edge_index_by_score_edge:
  assumes "(n, n') \<in> set (cluster_edge_index_by_score R scores cls2 M batch)"
  shows "\<exists>r r'. r < length scores \<and> r' < length scores \<and> n < length batch \<and> n' < length batch \<and>
           cls2 ! r ! n = cls2 ! r' ! n'"
proof -
  let ?N = "length batch"
  let ?ncol = "case scores of [] \<Rightarrow> 0 | row # _ \<Rightarrow> length row"
  let ?min = "map (\<lambda>b. vmin (map (\<lambda>row. row ! b) scores)) [0..<?ncol]"
  let ?best = "concat (map (\<lambda>r. map (\<lambda>b. (r, b))
                 (filter (\<lambda>b. scores ! r ! b \<le> ?min ! b) [0..<?ncol])) [0..<length scores])"
  let ?bc = "spspmm_index ?best (zip batch [0..<?N]) ?N"
  let ?ci = "zip (map (\<lambda>(r, n). cls2 ! r ! n) ?bc) (map snd ?bc)"
  have best: "r < length scores" if "(r, b) \<in> set ?best" for r b
    using that by auto
  have bc: "r < length scores \<and> m < ?N" if "(r, m) \<in> set ?bc" for r m
    using that best by (rule best_classifications_range)
  have ci: "?ci = map (\<lambda>x. (cls2 ! fst x ! snd x, snd x)) ?bc"
    by (rule nth_equalityI) (simp_all add: case_prod_beta)
  have cim: "\<exists>r<length scores. m < ?N \<and> c = cls2 ! r ! m" if "(c, m) \<in> set ?ci" for c m
  proof -
    from that obtain x where x: "x \<in> set ?bc" and c: "c = cls2 ! fst x ! snd x" and m: "m = snd x"
      unfolding ci by auto
    have "(fst x, snd x) \<in> set ?bc" using x by simp
    then have "fst x < length scores \<and> snd x < ?N" by (rule bc)
    then show ?thesis using c m by blast
  qed
  have "set (cluster_edge_index_by_score R scores cls2 M batch) =
      {(i, j). \<exists>k. (i, k) \<in> set (map (\<lambda>(c, n). (n, c)) ?ci) \<and> (k, j) \<in> set ?ci}"
    unfolding cluster_edge_index_by_score_def Let_def by (rule set_spspmm_index)
  with assms obtain c where c1: "(n, c) \<in> set (map (\<lambda>(c, n). (n, c)) ?ci)" and c2: "(c, n') \<in> set ?ci"
    by blast
  from c1 have c1': "(c, n) \<in> set ?ci" by auto
  from cim [OF c1'] cim [OF c2] show ?thesis by blast
qed


lemma shifted_batch_eq:
  fixes x y r r' B :: nat
  assumes "x + r * B = y + r' * B" and "x < B" and "y < B"
  shows "x = y"
proof -
  have "(x + r * B) mod B = x" "(y + r' * B) mod B = y"
    using assms(2,3) by simp_all
  then show ?thesis using assms(1) by simp
qed

lemma block_div: "n < N \<Longrightarrow> (r * N + n) div N = (r :: nat)"
  by simp

lemma block_mod: "n < N \<Longrightarrow> (r * N + n) mod N = (n :: nat)"
  by simp

lemma reshape2_returns:
  "0 < R \<Longrightarrow> length xs = R * c \<Longrightarrow> reshape2 R xs = Inr (chunks R c xs)"
  by (simp add: reshape2_def)

lemma SymmetricKMeans_forward_labels:
  assumes R: "0 < rand_iter skm" and it: "0 < max_iter skm"
    and wfp: "wf_tensor2 pos" and lb: "length batch = length (rows pos)" and ne: "batch \<noteq> []"
    and wfs: "wf_tensor2 sp" and cols: "ncols sp = ncols pos"
    and lsb: "length sb = length (rows sp)" and sbne: "sb \<noteq> []"
    and rng: "list_all (\<lambda>s. s < rand_iter skm * length sb)
        (fps (big_pos (rand_iter skm) sp) (big_batch (rand_iter skm) sb) ratio)"
    and cand: "list_all (\<lambda>g. list_ex (\<lambda>s. big_batch (rand_iter skm) sb ! s = g)
        (fps (big_pos (rand_iter skm) sp) (big_batch (rand_iter skm) sb) ratio))
        (big_batch (rand_iter skm) batch)"
  shows "\<exists>labels. SymmetricKMeans_forward nearest fps skm pos batch (Some (sp, sb)) ratio = Inr labels \<and>
     length labels = length (rows pos) \<and>
     (\<forall>c<Max (set labels) + 1. \<exists>n<length (rows pos). labels ! n = c) \<and>
     (\<forall>n<length (rows pos). \<forall>n'<length (rows pos). labels ! n = labels ! n' \<longrightarrow> batch ! n = batch ! n')"
proof -
  let ?R = "rand_iter skm" and ?N = "length (rows pos)"
  let ?bp = "big_pos ?R pos" and ?bb = "big_batch ?R batch"
  let ?sp = "big_pos ?R sp" and ?sb = "big_batch ?R sb"
  let ?S = "fps ?sp ?sb ratio"
  let ?B = "Max (set batch) + 1"
  have N: "0 < ?N" using ne lb by (cases batch) auto
  have lbb: "length ?bb = length (rows ?bp)"
    by (simp add: length_big_batch length_big_pos lb)
  have rng': "list_all (\<lambda>s. s < length (rows ?sp) \<and> s < length ?sb) ?S"
    using rng by (simp add: length_big_batch length_big_pos lsb)
  have cand': "\<exists>j<length ?S. ?sb ! (?S ! j) = ?bb ! i" if i: "i < length (rows ?bp)" for i
  proof -
    have "?bb ! i \<in> set ?bb" using i lbb by simp
    then have "list_ex (\<lambda>s. ?sb ! s = ?bb ! i) ?S"
      using cand by (simp add: list_all_iff)
    then obtain s where "s \<in> set ?S" "?sb ! s = ?bb ! i"
      by (auto simp: list_ex_iff)
    then show ?thesis by (auto simp: in_set_conv_nth)
  qed
  obtain cls cen cb where
    km: "KMeans_forward nearest fps skm ?bp ?bb (Some (?sp, ?sb)) ratio = Inr (cls, cen, cb)"
    and lcls: "length cls = length (rows ?bp)"
    and good: "\<forall>i<length (rows ?bp). cls ! i < length (rows cen) \<and> cb ! (cls ! i) = ?bb ! i"
    and wfc: "wf_tensor2 cen" and ccols: "ncols cen = ncols ?bp"
    using KMeans_forward_returns [of ?bp ?bb ?sp skm fps ?sb ratio ?S]
      wf_big_pos [OF wfp] wf_big_pos [OF wfs] lbb cols it rng' cand'
    by auto
  have bbne: "?bb \<noteq> []"
    using R N lb length_big_batch [of ?R batch] by (metis length_0_conv mult_is_0 not_less0 neq0_conv)
  obtain sc where sc: "score (score_norm skm) ?bp ?bb cen cls = Inr sc"
    and lsc: "length sc = Max (set ?bb) + 1"
    using score_returns [of ?bp ?bb cen cls "score_norm skm"]
      wf_big_pos [OF wfp] lbb bbne wfc ccols lcls good by auto
  have lsc': "length sc = ?R * ?B"
    using lsc Max_big_batch [OF R ne] by simp
  have rs: "reshape2 ?R sc = Inr (chunks ?R ?B sc)"
    using R lsc' by (rule reshape2_returns)
  have lcls': "length cls = ?R * ?N"
    using lcls by (simp add: length_big_pos)
  have rc: "reshape2 ?R cls = Inr (chunks ?R ?N cls)"
    using R lcls' by (rule reshape2_returns)
  let ?scores = "chunks ?R ?B sc" and ?cls2 = "chunks ?R ?N cls"
  let ?es = "filter (\<lambda>(i, j). i \<le> j)
      (cluster_edge_index_by_score ?R ?scores ?cls2 (length (rows cen)) batch)"
  let ?labels = "assign_labels ?N (connected_components ?N ?es)"
  have fwd: "SymmetricKMeans_forward nearest fps skm pos batch (Some (sp, sb)) ratio = Inr ?labels"
    using R ne sbne km sc rs rc by (simp add: SymmetricKMeans_forward_def Let_def)
  have bnd: "batch ! n < ?B" if "n < ?N" for n
  proof -
    have "batch ! n \<in> set batch" using that lb by simp
    then have "batch ! n \<le> Max (set batch)" by simp
    then show ?thesis by simp
  qed
  have cb_at: "cb ! (?cls2 ! r ! n) = batch ! n + r * ?B" if r: "r < ?R" and n: "n < ?N" for r n
  proof -
    have i: "r * ?N + n < ?R * ?N"
    proof -
      have "r * ?N + ?N \<le> ?R * ?N"
        using r by (metis Suc_leI mult_Suc mult_le_mono1 add.commute)
      then show ?thesis using n by linarith
    qed
    have "?cls2 ! r ! n = cls ! (r * ?N + n)"
      using r n lcls' by (rule chunks_nth_nth)
    moreover have "cb ! (cls ! (r * ?N + n)) = ?bb ! (r * ?N + n)"
      using good i by (simp add: length_big_pos)
    moreover have "?bb ! (r * ?N + n) = batch ! n + r * ?B"
    proof -
      have dm: "(r * ?N + n) div ?N = r" "(r * ?N + n) mod ?N = n"
        using n by (rule block_div) (rule block_mod [OF n])
      have "r * ?N + n < ?R * length batch" using i lb by simp
      then have "?bb ! (r * ?N + n) =
          batch ! ((r * ?N + n) mod length batch) + ((r * ?N + n) div length batch) * ?B"
        by (rule big_batch_nth)
      then show ?thesis unfolding lb dm .
    qed
    ultimately show ?thesis by simp
  qed
  have same: "batch ! a = batch ! b" if "(a, b) \<in> set ?es" for a b
  proof -
    from that have "(a, b) \<in> set (cluster_edge_index_by_score ?R ?scores ?cls2 (length (rows cen)) batch)"
      by simp
    then obtain r r' where r: "r < ?R" "r' < ?R" and ab: "a < ?N" "b < ?N"
      and eq: "?cls2 ! r ! a = ?cls2 ! r' ! b"
      using cluster_edge_index_by_score_edge [of a b ?R ?scores ?cls2 "length (rows cen)" batch] lb
      by auto
    have "batch ! a + r * ?B = batch ! b + r' * ?B"
      using cb_at [OF r(1) ab(1)] cb_at [OF r(2) ab(2)] eq by simp
    then show ?thesis
      using bnd [OF ab(1)] bnd [OF ab(2)] by (rule shifted_batch_eq)
  qed
  note cl = component_labels [of ?N ?es "\<lambda>n. batch ! n", OF N same]
  show ?thesis
  proof (intro exI [of _ ?labels] conjI)
    show "SymmetricKMeans_forward nearest fps skm pos batch (Some (sp, sb)) ratio = Inr ?labels"
      by (rule fwd)
    show "length ?labels = ?N" by (rule cl(1))
    show "\<forall>c<Max (set ?labels) + 1. \<exists>n<?N. ?labels ! n = c" by (rule cl(2))
    show "\<forall>n<?N. \<forall>n'<?N. ?labels ! n = ?labels ! n' \<longrightarrow> batch ! n = batch ! n'"
      by (rule cl(3))
  qed
qed

section \<open>Pooling.forward on two batch examples\<close>






















end
